theory Spec2Isabelle
  imports
    Complex_Main
    "HOL-Library.Product_Lexorder"
    "HOL-Library.List_Lexorder"
    "HOL-Library.Char_ord"
begin

section \<open>Data model of \<^verbatim>\<open>fava.beans.prices\<close>\<close>

text \<open>
  A \<^verbatim>\<open>datetime.date\<close> has a year, a month and a day; Python compares dates as it
  compares the triples (year, month, day), lexicographically.

  Currency codes are \<^verbatim>\<open>str\<close>; Python orders strings lexicographically by code point,
  which on ASCII codes is the order of \<^verbatim>\<open>List_Lexorder\<close> over \<^verbatim>\<open>Char_ord\<close>, and
  tuples lexicographically, the order of \<^verbatim>\<open>Product_Lexorder\<close>.

  Rates are \<^verbatim>\<open>decimal.Decimal\<close>, a type of the standard library: the type of rates is a
  type variable \<open>'r\<close>. The module uses three things of a rate: the constant \<^verbatim>\<open>ONE\<close> (the
  \<open>1\<close> of \<open>'r\<close>), the comparison \<^verbatim>\<open>rate != ZERO\<close> and the quotient \<^verbatim>\<open>ONE / rate\<close>. Under
  the decimal context both operations can raise (\<^verbatim>\<open>ONE / rate\<close> raises \<^verbatim>\<open>decimal.Overflow\<close>
  on a rate such as \<^verbatim>\<open>1E-1000000\<close>, the comparison raises \<^verbatim>\<open>decimal.InvalidOperation\<close> on a
  signalling NaN) and the quotient is rounded to the context's precision. The two
  operations are therefore parameters of the constructor, each returning a value or an
  exception (\<open>decimal_ops\<close> below); nothing relies on a law of arithmetic.
\<close>

datatype date = Date (year: nat) (month: nat) (day: nat)

instantiation date :: linorder
begin

definition less_eq_date :: "date \<Rightarrow> date \<Rightarrow> bool" where
  "less_eq_date d e \<longleftrightarrow> (year d, month d, day d) \<le> (year e, month e, day e)"

definition less_date :: "date \<Rightarrow> date \<Rightarrow> bool" where
  "less_date d e \<longleftrightarrow> (year d, month d, day d) < (year e, month e, day e)"

instance
  by standard (auto simp: less_eq_date_def less_date_def date.expand)

end

type_synonym BaseQuote = "string \<times> string"
type_synonym 'r PricePoint = "date \<times> 'r"

text \<open>The three shapes \<^verbatim>\<open>get_price_point\<close> returns: a price point \<open>(Some d, Some r)\<close>,
  the identity \<open>(None, Some 1)\<close> and no data \<open>(None, None)\<close>.\<close>

type_synonym 'r PointResult = "date option \<times> 'r option"

text \<open>\<^verbatim>\<open>fava.beans.abc.Amount\<close> and \<^verbatim>\<open>fava.beans.abc.Price\<close>: the fields the module reads.\<close>

record 'r Amount =
  amount_number :: 'r
  amount_currency :: string

record 'r Price =
  price_date :: date
  price_currency :: string
  price_amount :: "'r Amount"

text \<open>The entry of the directive \<^verbatim>\<open>date price base rate quote\<close>: one unit of \<open>base\<close> is
  worth \<open>rate\<close> units of \<open>quote\<close> on \<open>date\<close>.\<close>

definition price_entry :: "date \<Rightarrow> string \<Rightarrow> 'r \<Rightarrow> string \<Rightarrow> 'r Price" where
  "price_entry d base rate quote =
     \<lparr>price_date = d, price_currency = base,
      price_amount = \<lparr>amount_number = rate, amount_currency = quote\<rparr>\<rparr>"

text \<open>The exceptions the module can raise: \<^verbatim>\<open>next\<close> on an exhausted iterator inside a
  generator (a \<^verbatim>\<open>StopIteration\<close>, which Python turns into \<^verbatim>\<open>RuntimeError\<close>), a list
  index out of range, and the signals the decimal context traps.\<close>

datatype error = RuntimeError | IndexError | InvalidOperation | DivisionByZero | Overflow

text \<open>The operations on \<^verbatim>\<open>Decimal\<close> the constructor uses: \<open>ne_zero rate\<close> is
  \<^verbatim>\<open>rate != ZERO\<close> and \<open>one_over rate\<close> is \<^verbatim>\<open>ONE / rate\<close>, each with the exception it raises as
  \<open>Inl\<close>.\<close>

record 'r decimal_ops =
  ne_zero :: "'r \<Rightarrow> error + bool"
  one_over :: "'r \<Rightarrow> error + 'r"

text \<open>Exact arithmetic on rationals, for concrete evaluations. The rates given to the
  constructor in them are \<open>2\<close>, \<open>4\<close> and \<open>5\<close>: on these the comparison and the quotient
  raise nothing, and the quotients \<open>0.5\<close>, \<open>0.25\<close> and \<open>0.2\<close> are exact within the default
  precision of 28 digits, so the values are the ones \<^verbatim>\<open>Decimal\<close> computes.\<close>

definition exact_decimal :: "rat decimal_ops" where
  "exact_decimal = \<lparr>ne_zero = (\<lambda>rate. Inr (rate \<noteq> 0)), one_over = (\<lambda>rate. Inr (1 / rate))\<rparr>"

section \<open>Python containers\<close>

text \<open>\<^verbatim>\<open>xs[-1]\<close> and \<^verbatim>\<open>xs[i]\<close> for \<open>i \<ge> 0\<close>: both raise \<^verbatim>\<open>IndexError\<close> out of range.\<close>

definition list_last :: "'a list \<Rightarrow> error + 'a" where
  "list_last xs = (if xs = [] then Inl IndexError else Inr (last xs))"

definition list_get :: "'a list \<Rightarrow> nat \<Rightarrow> error + 'a" where
  "list_get xs i = (if i < length xs then Inr (xs ! i) else Inl IndexError)"

text \<open>A \<^verbatim>\<open>dict\<close> keeps its keys in insertion order: an association list with distinct keys,
  read with \<open>map_of\<close>. \<^verbatim>\<open>raw_map[k].append(v)\<close> on a \<^verbatim>\<open>defaultdict(list)\<close> appends to the
  list under \<open>k\<close>, inserting \<open>k\<close> with an empty list at the end of the dict first when it is
  missing.\<close>

fun defaultdict_append :: "'k \<Rightarrow> 'v \<Rightarrow> ('k \<times> 'v list) list \<Rightarrow> ('k \<times> 'v list) list" where
  "defaultdict_append k v [] = [(k, [v])]"
| "defaultdict_append k v ((k', vs) # rest) =
     (if k' = k then (k', vs @ [v]) # rest else (k', vs) # defaultdict_append k v rest)"

text \<open>\<^verbatim>\<open>counts[k] += 1\<close> on a \<^verbatim>\<open>Counter\<close>, and \<^verbatim>\<open>counts.get(k, 0)\<close>.\<close>

fun counter_increment :: "'k \<Rightarrow> ('k \<times> nat) list \<Rightarrow> ('k \<times> nat) list" where
  "counter_increment k [] = [(k, 1)]"
| "counter_increment k ((k', n) # rest) =
     (if k' = k then (k', n + 1) # rest else (k', n) # counter_increment k rest)"

definition counter_get :: "('k \<times> nat) list \<Rightarrow> 'k \<Rightarrow> nat" where
  "counter_get counts k = (case map_of counts k of None \<Rightarrow> 0 | Some n \<Rightarrow> n)"

text \<open>\<^verbatim>\<open>s.add(x)\<close> on a \<^verbatim>\<open>set\<close>, kept as the list of its elements.\<close>

definition set_add :: "'a \<Rightarrow> 'a list \<Rightarrow> 'a list" where
  "set_add x xs = (if x \<in> set xs then xs else xs @ [x])"

section \<open>\<^verbatim>\<open>bisect\<close> over \<^verbatim>\<open>DateKeyWrapper\<close>\<close>

text \<open>\<^verbatim>\<open>DateKeyWrapper(inner)\<close> is a sequence with \<^verbatim>\<open>len(inner)\<close> elements whose \<open>k\<close>-th
  element is \<^verbatim>\<open>inner[k][0]\<close>.\<close>

definition DateKeyWrapper :: "'r PricePoint list \<Rightarrow> date list" where
  "DateKeyWrapper inner = map fst inner"

text \<open>\<^verbatim>\<open>bisect.bisect\<close> is \<^verbatim>\<open>bisect_right\<close> of the standard library:
  \<^verbatim>\<open>while lo < hi: mid = (lo + hi) // 2; if x < a[mid]: hi = mid else: lo = mid + 1\<close>,
  started at \<open>lo = 0\<close>, \<open>hi = len(a)\<close>.\<close>

function bisect_loop :: "date list \<Rightarrow> date \<Rightarrow> nat \<Rightarrow> nat \<Rightarrow> nat" where
  "bisect_loop a x lo hi =
     (if lo < hi then
        (let mid = (lo + hi) div 2 in
         if x < a ! mid then bisect_loop a x lo mid else bisect_loop a x (mid + 1) hi)
      else lo)"
  by pat_completeness auto
termination
  by (relation "measure (\<lambda>(a, x, lo, hi). hi - lo)") auto

declare bisect_loop.simps [simp del]

definition bisect :: "date list \<Rightarrow> date \<Rightarrow> nat" where
  "bisect a x = bisect_loop a x 0 (length a)"

section \<open>\<^verbatim>\<open>_keep_last_per_day\<close>\<close>

text \<open>The generator's loop, with \<open>lst\<close> the variable \<^verbatim>\<open>last\<close>: it yields \<^verbatim>\<open>last\<close> whenever
  the next price has a greater date, and the final \<^verbatim>\<open>last\<close> at the end.\<close>

fun keep_last_loop :: "'r PricePoint \<Rightarrow> 'r PricePoint list \<Rightarrow> 'r PricePoint list" where
  "keep_last_loop lst [] = [lst]"
| "keep_last_loop lst (price # prices_iter) =
     (if fst price > fst lst then lst # keep_last_loop price prices_iter
      else keep_last_loop price prices_iter)"

fun keep_last_per_day :: "'r PricePoint list \<Rightarrow> error + 'r PricePoint list" where
  "keep_last_per_day [] = Inl RuntimeError"
| "keep_last_per_day (lst # prices_iter) = Inr (keep_last_loop lst prices_iter)"

section \<open>\<^verbatim>\<open>FavaPriceMap\<close>\<close>

text \<open>The object's fields \<^verbatim>\<open>_currencies\<close>, \<^verbatim>\<open>_forward_pairs\<close> and \<^verbatim>\<open>_map\<close>.
  \<^verbatim>\<open>_currencies\<close> is a Python \<^verbatim>\<open>set\<close>; the field holds its elements in the order in
  which iterating the set enumerates them.\<close>

record 'r FavaPriceMap =
  fpm_currencies :: "string list"
  fpm_forward_pairs :: "BaseQuote list"
  fpm_map :: "(BaseQuote \<times> 'r PricePoint list) list"

subsection \<open>\<^verbatim>\<open>__init__\<close>\<close>

text \<open>The loop over \<^verbatim>\<open>price_entries\<close>, threading \<^verbatim>\<open>raw_map\<close>, \<^verbatim>\<open>counts\<close> and the
  currency set (in insertion order). An exception of \<^verbatim>\<open>rate != ZERO\<close> or of \<^verbatim>\<open>ONE / rate\<close>
  leaves the loop and the constructor.\<close>

fun ingest ::
  "'r decimal_ops \<Rightarrow> 'r Price list \<Rightarrow> (BaseQuote \<times> 'r PricePoint list) list \<Rightarrow>
   (BaseQuote \<times> nat) list \<Rightarrow> string list \<Rightarrow>
   error + (BaseQuote \<times> 'r PricePoint list) list \<times> (BaseQuote \<times> nat) list \<times> string list" where
  "ingest dec [] raw_map counts currencies = Inr (raw_map, counts, currencies)"
| "ingest dec (price # price_entries) raw_map counts currencies =
     (let currencies = set_add (price_currency price) currencies;
          currencies = set_add (amount_currency (price_amount price)) currencies;
          rate = amount_number (price_amount price);
          base_quote = (price_currency price, amount_currency (price_amount price));
          raw_map = defaultdict_append base_quote (price_date price, rate) raw_map;
          counts = counter_increment base_quote counts
      in case ne_zero dec rate of
           Inl e \<Rightarrow> Inl e
         | Inr nonzero \<Rightarrow>
             if nonzero then
               (case one_over dec rate of
                  Inl e \<Rightarrow> Inl e
                | Inr inverse_rate \<Rightarrow>
                    ingest dec price_entries
                      (defaultdict_append
                         (amount_currency (price_amount price), price_currency price)
                         (price_date price, inverse_rate) raw_map)
                      counts currencies)
             else ingest dec price_entries raw_map counts currencies)"

text \<open>The list comprehension over \<^verbatim>\<open>counts.items()\<close>.\<close>

definition forward_pairs_of :: "(BaseQuote \<times> nat) list \<Rightarrow> BaseQuote list" where
  "forward_pairs_of counts =
     map fst (filter (\<lambda>((base, quote), count). counter_get counts (quote, base) < count) counts)"

text \<open>The dict comprehension over \<^verbatim>\<open>raw_map.items()\<close>; an exception of
  \<^verbatim>\<open>_keep_last_per_day\<close> leaves it.\<close>

fun keep_last_all ::
  "(BaseQuote \<times> 'r PricePoint list) list \<Rightarrow> error + (BaseQuote \<times> 'r PricePoint list) list" where
  "keep_last_all [] = Inr []"
| "keep_last_all ((k, rates) # rest) =
     (case keep_last_per_day rates of
        Inl e \<Rightarrow> Inl e
      | Inr ps \<Rightarrow> (case keep_last_all rest of Inl e \<Rightarrow> Inl e | Inr m \<Rightarrow> Inr ((k, ps) # m)))"

text \<open>The constructor. CPython enumerates a \<^verbatim>\<open>set\<close> of strings in the order of its hash
  table, which depends on the interpreter's hash seed and not on the program; the
  enumeration is the parameter \<open>set_order\<close>, applied to the currencies in insertion order.\<close>

definition FavaPriceMap_init ::
  "'r decimal_ops \<Rightarrow> (string list \<Rightarrow> string list) \<Rightarrow> 'r Price list \<Rightarrow> error + 'r FavaPriceMap" where
  "FavaPriceMap_init dec set_order price_entries =
     (case ingest dec price_entries [] [] [] of
        Inl e \<Rightarrow> Inl e
      | Inr (raw_map, counts, currencies) \<Rightarrow>
          (case keep_last_all raw_map of
             Inl e \<Rightarrow> Inl e
           | Inr m \<Rightarrow>
               Inr \<lparr>fpm_currencies = set_order currencies,
                    fpm_forward_pairs = forward_pairs_of counts,
                    fpm_map = m\<rparr>))"

subsection \<open>\<^verbatim>\<open>commodity_pairs\<close>\<close>

fun extra_operating_pairs :: "BaseQuote list \<Rightarrow> string list \<Rightarrow> BaseQuote list" where
  "extra_operating_pairs [] operating_currencies = []"
| "extra_operating_pairs ((base, quote) # forward_pairs) operating_currencies =
     (if base \<in> set operating_currencies \<and> quote \<in> set operating_currencies
      then (quote, base) # extra_operating_pairs forward_pairs operating_currencies
      else extra_operating_pairs forward_pairs operating_currencies)"

definition commodity_pairs :: "'r FavaPriceMap \<Rightarrow> string list \<Rightarrow> BaseQuote list" where
  "commodity_pairs self operating_currencies =
     sort (fpm_forward_pairs self @
           extra_operating_pairs (fpm_forward_pairs self) operating_currencies)"

subsection \<open>\<^verbatim>\<open>get_all_prices\<close>, \<^verbatim>\<open>get_price_point\<close>, \<^verbatim>\<open>get_price\<close>\<close>

definition get_all_prices :: "'r FavaPriceMap \<Rightarrow> BaseQuote \<Rightarrow> 'r PricePoint list option" where
  "get_all_prices self base_quote = map_of (fpm_map self) base_quote"

definition point :: "'r PricePoint \<Rightarrow> 'r PointResult" where
  "point p = (Some (fst p), Some (snd p))"

text \<open>\<^verbatim>\<open>get_price_point\<close> with its loop over \<^verbatim>\<open>self._currencies\<close> (\<open>via_currency\<close>, on the
  currencies still to visit). The recursive calls are the source's.\<close>

function get_price_point ::
    "('r::one) FavaPriceMap \<Rightarrow> BaseQuote \<Rightarrow> date option \<Rightarrow> error + 'r PointResult"
  and via_currency ::
    "'r FavaPriceMap \<Rightarrow> BaseQuote \<Rightarrow> date option \<Rightarrow> string list \<Rightarrow> error + 'r PointResult"
where
  "get_price_point self (base, quote) date =
     (if base = quote then Inr (None, Some 1)
      else
        case map_of (fpm_map self) (base, quote) of
          Some price_list \<Rightarrow>
            (case date of
               None \<Rightarrow>
                 (case list_last price_list of Inl e \<Rightarrow> Inl e | Inr p \<Rightarrow> Inr (point p))
             | Some d \<Rightarrow>
                 (let index = bisect (DateKeyWrapper price_list) d in
                  if index = 0 then Inr (None, None)
                  else
                    case list_get price_list (index - 1) of
                      Inl e \<Rightarrow> Inl e
                    | Inr p \<Rightarrow> Inr (point p)))
        | None \<Rightarrow> via_currency self (base, quote) date (fpm_currencies self))"
| "via_currency self (base, quote) date [] = Inr (None, None)"
| "via_currency self (base, quote) date (currency # rest) =
     (if currency = base \<or> currency = quote then via_currency self (base, quote) date rest
      else
        case map_of (fpm_map self) (base, currency) of
          None \<Rightarrow> via_currency self (base, quote) date rest
        | Some price_list1 \<Rightarrow>
            (case map_of (fpm_map self) (currency, quote) of
               None \<Rightarrow> via_currency self (base, quote) date rest
             | Some price_list2 \<Rightarrow>
                 (case date of
                    None \<Rightarrow>
                      (case list_last price_list1 of
                         Inl e \<Rightarrow> Inl e
                       | Inr p1 \<Rightarrow>
                           (case list_last price_list2 of
                              Inl e \<Rightarrow> Inl e
                            | Inr p2 \<Rightarrow>
                                if fst p1 < fst p2
                                then get_price_point self (currency, quote) (Some (fst p1))
                                else get_price_point self (base, currency) (Some (fst p2))))
                  | Some d \<Rightarrow>
                      (let index = bisect (DateKeyWrapper price_list1) d in
                       if index = 0 then Inr (None, None)
                       else
                         case list_get price_list1 (index - 1) of
                           Inl e \<Rightarrow> Inl e
                         | Inr p \<Rightarrow> get_price_point self (currency, quote) (Some (fst p))))))"
  by pat_completeness auto
termination
  by (relation "measure (\<lambda>x. case x of
         Inl (self, bq, date) \<Rightarrow>
           (if fst bq = snd bq \<or> map_of (fpm_map self) bq \<noteq> None then 0
            else length (fpm_currencies self) + 2)
       | Inr (self, bq, date, cs) \<Rightarrow> length cs + 1)") auto

definition get_price :: "('r::one) FavaPriceMap \<Rightarrow> BaseQuote \<Rightarrow> date option \<Rightarrow> error + 'r option" where
  "get_price self base_quote date =
     (case get_price_point self base_quote date of Inl e \<Rightarrow> Inl e | Inr r \<Rightarrow> Inr (snd r))"

subsection \<open>Call depth of \<^verbatim>\<open>get_price_point\<close>\<close>

text \<open>The same two functions with an allowance for the depth of nested calls of
  \<^verbatim>\<open>get_price_point\<close>: \<open>Suc n\<close> allows the body and, inside it, calls of allowance \<open>n\<close>;
  with allowance \<open>0\<close> the call is not made and the value is \<open>None\<close>. An allowance of \<open>2\<close>
  is the outer call and one recursive call.\<close>

fun get_price_point_depth ::
    "nat \<Rightarrow> ('r::one) FavaPriceMap \<Rightarrow> BaseQuote \<Rightarrow> date option \<Rightarrow> (error + 'r PointResult) option"
  and via_currency_depth ::
    "nat \<Rightarrow> 'r FavaPriceMap \<Rightarrow> BaseQuote \<Rightarrow> date option \<Rightarrow> string list \<Rightarrow>
     (error + 'r PointResult) option"
where
  "get_price_point_depth 0 self (base, quote) date = None"
| "get_price_point_depth (Suc n) self (base, quote) date =
     (if base = quote then Some (Inr (None, Some 1))
      else
        case map_of (fpm_map self) (base, quote) of
          Some price_list \<Rightarrow>
            (case date of
               None \<Rightarrow>
                 (case list_last price_list of
                    Inl e \<Rightarrow> Some (Inl e)
                  | Inr p \<Rightarrow> Some (Inr (point p)))
             | Some d \<Rightarrow>
                 (let index = bisect (DateKeyWrapper price_list) d in
                  if index = 0 then Some (Inr (None, None))
                  else
                    case list_get price_list (index - 1) of
                      Inl e \<Rightarrow> Some (Inl e)
                    | Inr p \<Rightarrow> Some (Inr (point p))))
        | None \<Rightarrow> via_currency_depth n self (base, quote) date (fpm_currencies self))"
| "via_currency_depth n self (base, quote) date [] = Some (Inr (None, None))"
| "via_currency_depth n self (base, quote) date (currency # rest) =
     (if currency = base \<or> currency = quote then via_currency_depth n self (base, quote) date rest
      else
        case map_of (fpm_map self) (base, currency) of
          None \<Rightarrow> via_currency_depth n self (base, quote) date rest
        | Some price_list1 \<Rightarrow>
            (case map_of (fpm_map self) (currency, quote) of
               None \<Rightarrow> via_currency_depth n self (base, quote) date rest
             | Some price_list2 \<Rightarrow>
                 (case date of
                    None \<Rightarrow>
                      (case list_last price_list1 of
                         Inl e \<Rightarrow> Some (Inl e)
                       | Inr p1 \<Rightarrow>
                           (case list_last price_list2 of
                              Inl e \<Rightarrow> Some (Inl e)
                            | Inr p2 \<Rightarrow>
                                if fst p1 < fst p2
                                then get_price_point_depth n self (currency, quote) (Some (fst p1))
                                else get_price_point_depth n self (base, currency) (Some (fst p2))))
                  | Some d \<Rightarrow>
                      (let index = bisect (DateKeyWrapper price_list1) d in
                       if index = 0 then Some (Inr (None, None))
                       else
                         case list_get price_list1 (index - 1) of
                           Inl e \<Rightarrow> Some (Inl e)
                         | Inr p \<Rightarrow>
                             get_price_point_depth n self (currency, quote) (Some (fst p))))))"

section \<open>Vocabulary of the properties\<close>

text \<open>The directed pair of a price entry, and the number of entries of a directed pair
  (what \<^verbatim>\<open>counts\<close> holds after the loop).\<close>

definition pair_of :: "'r Price \<Rightarrow> BaseQuote" where
  "pair_of price = (price_currency price, amount_currency (price_amount price))"

definition observation_count :: "'r Price list \<Rightarrow> BaseQuote \<Rightarrow> nat" where
  "observation_count price_entries k = length (filter (\<lambda>price. pair_of price = k) price_entries)"

text \<open>The point an entry appends to the series of its own pair, and the point it appends
  to the series of the reversed pair: the inverse, when the rate is not zero.\<close>

definition observed_point :: "'r Price \<Rightarrow> 'r PricePoint" where
  "observed_point price = (price_date price, amount_number (price_amount price))"

definition inverse_points :: "'r decimal_ops \<Rightarrow> 'r Price \<Rightarrow> 'r PricePoint list" where
  "inverse_points dec price =
     (case ne_zero dec (amount_number (price_amount price)) of
        Inl e \<Rightarrow> []
      | Inr nonzero \<Rightarrow>
          if nonzero then
            (case one_over dec (amount_number (price_amount price)) of
               Inl e \<Rightarrow> []
             | Inr inverse_rate \<Rightarrow> [(price_date price, inverse_rate)])
          else [])"

text \<open>The points one entry appends to the series of the pair \<open>k\<close>: its own point when it is
  an entry of \<open>k\<close>, then its inverse point when it is an entry of the reversed pair.
  \<open>entries\<close> is the series of \<open>k\<close> in ingestion order.\<close>

definition entry_points :: "'r decimal_ops \<Rightarrow> 'r Price \<Rightarrow> BaseQuote \<Rightarrow> 'r PricePoint list" where
  "entry_points dec price k =
     (if pair_of price = k then [observed_point price] else []) @
     (if (amount_currency (price_amount price), price_currency price) = k
      then inverse_points dec price else [])"

fun entries :: "'r decimal_ops \<Rightarrow> 'r Price list \<Rightarrow> BaseQuote \<Rightarrow> 'r PricePoint list" where
  "entries dec [] k = []"
| "entries dec (price # price_entries) k = entry_points dec price k @ entries dec price_entries k"

text \<open>A date-ascending stream of entries; a series with strictly increasing dates.\<close>

definition date_ascending :: "'r Price list \<Rightarrow> bool" where
  "date_ascending price_entries = sorted (map price_date price_entries)"

definition strictly_increasing :: "'r PricePoint list \<Rightarrow> bool" where
  "strictly_increasing ps = sorted_wrt (<) (map fst ps)"

text \<open>The last point of a series, in list order, whose date is at most \<open>d\<close>; no data when
  there is none.\<close>

definition latest_upto :: "'r PricePoint list \<Rightarrow> date \<Rightarrow> 'r PointResult" where
  "latest_upto ps d =
     (case filter (\<lambda>p. fst p \<le> d) ps of [] \<Rightarrow> (None, None) | q # qs \<Rightarrow> point (last (q # qs)))"

text \<open>The points of a series that bear the date \<open>d\<close>.\<close>

definition on_date :: "date \<Rightarrow> 'r PricePoint list \<Rightarrow> 'r PricePoint list" where
  "on_date d ps = filter (\<lambda>p. fst p = d) ps"

text \<open>The entries of the pair \<open>k\<close> dated \<open>d\<close>, in ingestion order.\<close>

definition observations_on :: "date \<Rightarrow> BaseQuote \<Rightarrow> 'r Price list \<Rightarrow> 'r Price list" where
  "observations_on d k price_entries =
     filter (\<lambda>price. pair_of price = k \<and> price_date price = d) price_entries"

text \<open>The list a \<^verbatim>\<open>defaultdict(list)\<close> holds under a key: empty when the key is missing.\<close>

definition held_under :: "('k \<times> 'v list) list \<Rightarrow> 'k \<Rightarrow> 'v list" where
  "held_under d k = (case map_of d k of None \<Rightarrow> [] | Some vs \<Rightarrow> vs)"

section \<open>\<^verbatim>\<open>bisect\<close> on a sorted sequence\<close>


lemma bisect_loop_bounds:
  "lo \<le> hi \<Longrightarrow> lo \<le> bisect_loop a x lo hi \<and> bisect_loop a x lo hi \<le> hi"
proof (induction a x lo hi rule: bisect_loop.induct)
  case (1 a x lo hi)
  show ?case
  proof (cases "lo < hi")
    case False
    then have "bisect_loop a x lo hi = lo" by (subst bisect_loop.simps) simp
    then show ?thesis using "1.prems" by simp
  next
    case True
    define mid where "mid = (lo + hi) div 2"
    have m: "lo \<le> mid" "mid < hi" using True by (auto simp: mid_def)
    show ?thesis
    proof (cases "x < a ! mid")
      case True
      have "lo \<le> bisect_loop a x lo mid \<and> bisect_loop a x lo mid \<le> mid"
        using "1.IH"(1)[OF \<open>lo < hi\<close> mid_def True] m by simp
      then show ?thesis using \<open>lo < hi\<close> True m
        by (simp add: bisect_loop.simps[of a x lo hi] mid_def[symmetric] Let_def)
    next
      case False
      have "mid + 1 \<le> bisect_loop a x (mid + 1) hi \<and> bisect_loop a x (mid + 1) hi \<le> hi"
        using "1.IH"(2)[OF \<open>lo < hi\<close> mid_def False] m by simp
      then show ?thesis using \<open>lo < hi\<close> False m
        by (simp add: bisect_loop.simps[of a x lo hi] mid_def[symmetric] Let_def)
    qed
  qed
qed

lemma bisect_le_length: "bisect a x \<le> length a"
  using bisect_loop_bounds[of 0 "length a" a x] by (simp add: bisect_def)

lemma bisect_loop_sorted:
  "sorted a \<Longrightarrow> lo \<le> hi \<Longrightarrow> hi \<le> length a \<Longrightarrow>
   (\<forall>i<lo. a ! i \<le> x) \<Longrightarrow> (\<forall>i. hi \<le> i \<and> i < length a \<longrightarrow> x < a ! i) \<Longrightarrow>
   (\<forall>i < bisect_loop a x lo hi. a ! i \<le> x) \<and>
   (\<forall>i. bisect_loop a x lo hi \<le> i \<and> i < length a \<longrightarrow> x < a ! i)"
proof (induction a x lo hi rule: bisect_loop.induct)
  case (1 a x lo hi)
  show ?case
  proof (cases "lo < hi")
    case False
    then have "bisect_loop a x lo hi = lo" by (subst bisect_loop.simps) simp
    moreover have "lo = hi" using False "1.prems" by simp
    ultimately show ?thesis using "1.prems" by simp
  next
    case True
    define mid where "mid = (lo + hi) div 2"
    have m: "lo \<le> mid" "mid < hi" using True by (auto simp: mid_def)
    show ?thesis
    proof (cases "x < a ! mid")
      case lt: True
      have up: "\<forall>i. mid \<le> i \<and> i < length a \<longrightarrow> x < a ! i"
      proof (intro allI impI)
        fix i assume "mid \<le> i \<and> i < length a"
        then have "a ! mid \<le> a ! i" using \<open>sorted a\<close> by (simp add: sorted_nth_mono)
        then show "x < a ! i" using lt by simp
      qed
      have "(\<forall>i < bisect_loop a x lo mid. a ! i \<le> x) \<and>
            (\<forall>i. bisect_loop a x lo mid \<le> i \<and> i < length a \<longrightarrow> x < a ! i)"
        using "1.IH"(1)[OF True mid_def lt] "1.prems" m up by simp
      then show ?thesis using True lt
        by (simp add: bisect_loop.simps[of a x lo hi] mid_def[symmetric] Let_def)
    next
      case ge: False
      have low: "\<forall>i<mid + 1. a ! i \<le> x"
      proof (intro allI impI)
        fix i assume "i < mid + 1"
        then have "a ! i \<le> a ! mid" using \<open>sorted a\<close> m "1.prems"(3) by (simp add: sorted_nth_mono)
        then show "a ! i \<le> x" using ge by simp
      qed
      have "(\<forall>i < bisect_loop a x (mid + 1) hi. a ! i \<le> x) \<and>
            (\<forall>i. bisect_loop a x (mid + 1) hi \<le> i \<and> i < length a \<longrightarrow> x < a ! i)"
        using "1.IH"(2)[OF True mid_def ge] "1.prems" m low by simp
      then show ?thesis using True ge
        by (simp add: bisect_loop.simps[of a x lo hi] mid_def[symmetric] Let_def)
    qed
  qed
qed

lemma bisect_sorted:
  assumes "sorted a"
  shows "(\<forall>i < bisect a x. a ! i \<le> x) \<and> (\<forall>i. bisect a x \<le> i \<and> i < length a \<longrightarrow> x < a ! i)"
  unfolding bisect_def by (rule bisect_loop_sorted[OF assms]) auto

lemma filter_take_bisect:
  assumes "sorted (map fst ps)"
  shows "filter (\<lambda>p. fst p \<le> d) ps = take (bisect (map fst ps) d) ps"
proof -
  let ?n = "bisect (map fst ps) d"
  have n: "?n \<le> length ps" using bisect_le_length[of "map fst ps" d] by simp
  have b: "(\<forall>i < ?n. map fst ps ! i \<le> d) \<and> (\<forall>i. ?n \<le> i \<and> i < length (map fst ps) \<longrightarrow> d < map fst ps ! i)"
    using bisect_sorted[OF assms] by blast
  have t: "filter (\<lambda>p. fst p \<le> d) (take ?n ps) = take ?n ps"
  proof (rule filter_True, clarify)
    fix a b assume "(a, b) \<in> set (take ?n ps)"
    then obtain i where i: "i < length (take ?n ps)" "take ?n ps ! i = (a, b)"
      by (auto simp: in_set_conv_nth)
    then have "i < ?n" "ps ! i = (a, b)" "i < length ps" using n by auto
    then show "fst (a, b) \<le> d" using b by (metis nth_map)
  qed
  have dr: "filter (\<lambda>p. fst p \<le> d) (drop ?n ps) = []"
  proof (rule filter_False, clarify)
    fix a b assume "(a, b) \<in> set (drop ?n ps)" "fst (a, b) \<le> d"
    then obtain i where i: "i < length (drop ?n ps)" "drop ?n ps ! i = (a, b)"
      by (auto simp: in_set_conv_nth)
    then have "?n + i < length ps" "ps ! (?n + i) = (a, b)" using n by auto
    then have "d < a" using b by (metis fst_conv le_add1 length_map nth_map)
    then show False using \<open>fst (a, b) \<le> d\<close> by simp
  qed
  have "filter (\<lambda>p. fst p \<le> d) ps = filter (\<lambda>p. fst p \<le> d) (take ?n ps @ drop ?n ps)" by simp
  also have "\<dots> = take ?n ps" unfolding filter_append t dr by simp
  finally show ?thesis .
qed

lemma direct_date_lookup:
  assumes "sorted (map fst ps)"
  shows "(let index = bisect (DateKeyWrapper ps) d in
          if index = 0 then Inr (None, None)
          else case list_get ps (index - 1) of Inl e \<Rightarrow> Inl e | Inr p \<Rightarrow> Inr (point p))
         = Inr (latest_upto ps d)"
proof -
  let ?n = "bisect (map fst ps) d"
  have n: "?n \<le> length ps" using bisect_le_length[of "map fst ps" d] by simp
  have f: "filter (\<lambda>p. fst p \<le> d) ps = take ?n ps" by (rule filter_take_bisect[OF assms])
  show ?thesis
  proof (cases "?n = 0")
    case True
    then show ?thesis by (simp add: DateKeyWrapper_def latest_upto_def f)
  next
    case False
    then have ne: "take ?n ps \<noteq> []" using n by auto
    have "last (take ?n ps) = ps ! (?n - 1)" using False n ne by (simp add: last_conv_nth min_def)
    then show ?thesis using False n ne
      by (auto simp: DateKeyWrapper_def latest_upto_def f list_get_def Let_def split: list.splits)
  qed
qed


section \<open>\<^verbatim>\<open>_keep_last_per_day\<close> on a date-ascending series\<close>

lemma keep_last_loop_nonempty: "keep_last_loop p ps \<noteq> []"
  by (induction ps arbitrary: p) auto

lemma last_keep_last_loop: "last (keep_last_loop p ps) = last (p # ps)"
  by (induction ps arbitrary: p) (auto simp: keep_last_loop_nonempty)

lemma keep_last_loop_subset: "set (keep_last_loop p ps) \<subseteq> set (p # ps)"
  by (induction ps arbitrary: p) (auto split: if_splits)

lemma keep_last_loop_strict:
  "sorted (map fst (p # ps)) \<Longrightarrow> sorted_wrt (<) (map fst (keep_last_loop p ps))"
proof (induction ps arbitrary: p)
  case Nil
  then show ?case by simp
next
  case (Cons q rest)
  have s: "sorted (map fst (q # rest))" using Cons.prems by simp
  have ih: "sorted_wrt (<) (map fst (keep_last_loop q rest))" using Cons.IH[OF s] .
  show ?case
  proof (cases "fst p < fst q")
    case True
    have "\<forall>y \<in> set (keep_last_loop q rest). fst p < fst y"
    proof
      fix y assume "y \<in> set (keep_last_loop q rest)"
      then have "y \<in> set (q # rest)" using keep_last_loop_subset by blast
      then have "fst q \<le> fst y" using s by auto
      then show "fst p < fst y" using True by simp
    qed
    then show ?thesis using True ih by simp
  next
    case False
    then show ?thesis using ih by simp
  qed
qed

lemma latest_upto_Cons:
  "latest_upto (p # ps) d =
     (if fst p \<le> d then (if filter (\<lambda>p. fst p \<le> d) ps = [] then point p else latest_upto ps d)
      else latest_upto ps d)"
  by (auto simp: latest_upto_def split: list.splits)

lemma keep_last_loop_latest:
  "sorted (map fst (p # ps)) \<Longrightarrow> latest_upto (keep_last_loop p ps) d = latest_upto (p # ps) d"
proof (induction ps arbitrary: p)
  case Nil
  then show ?case by simp
next
  case (Cons q rest)
  have s: "sorted (map fst (q # rest))" using Cons.prems by simp
  have ih: "latest_upto (keep_last_loop q rest) d = latest_upto (q # rest) d" using Cons.IH[OF s] .
  have pq: "fst p \<le> fst q" using Cons.prems by simp
  show ?case
  proof (cases "fst p < fst q")
    case True
    have e: "filter (\<lambda>p. fst p \<le> d) (keep_last_loop q rest) = [] \<longleftrightarrow>
             filter (\<lambda>p. fst p \<le> d) (q # rest) = []"
      using ih by (auto simp: latest_upto_def point_def split: list.splits)
    show ?thesis using True ih e
      by (simp add: latest_upto_Cons[of p] del: filter.simps)
  next
    case False
    then have "fst p = fst q" using pq by simp
    then show ?thesis using False ih by (simp add: latest_upto_Cons[of p] latest_upto_Cons[of q])
  qed
qed

lemma keep_last_loop_on_date:
  "sorted (map fst (p # ps)) \<Longrightarrow>
   on_date d (keep_last_loop p ps) =
     (if on_date d (p # ps) = [] then [] else [last (on_date d (p # ps))])"
proof (induction ps arbitrary: p)
  case Nil
  then show ?case by (simp add: on_date_def)
next
  case (Cons q rest)
  have s: "sorted (map fst (q # rest))" using Cons.prems by simp
  note ih = Cons.IH[OF s]
  have pq: "fst p \<le> fst q" using Cons.prems by simp
  show ?case
  proof (cases "fst p < fst q")
    case True
    show ?thesis
    proof (cases "fst p = d")
      case eq: True
      have "\<forall>y \<in> set (q # rest). fst y \<noteq> d"
      proof
        fix y assume "y \<in> set (q # rest)"
        then have "fst q \<le> fst y" using s by auto
        then show "fst y \<noteq> d" using True eq by auto
      qed
      then have "on_date d (q # rest) = []" unfolding on_date_def by (intro filter_False) simp
      then show ?thesis using True eq ih by (simp add: on_date_def)
    next
      case False
      then show ?thesis using True ih by (simp add: on_date_def)
    qed
  next
    case False
    then have "fst p = fst q" using pq by simp
    then show ?thesis using False ih by (simp add: on_date_def)
  qed
qed

section \<open>What the constructor builds\<close>

lemma held_under_append:
  "held_under (defaultdict_append k v d) k' =
     (if k' = k then held_under d k @ [v] else held_under d k')"
  by (induction k v d rule: defaultdict_append.induct) (auto simp: held_under_def)

lemma defaultdict_append_nonempty:
  "[] \<notin> snd ` set d \<Longrightarrow> [] \<notin> snd ` set (defaultdict_append k v d)"
  by (induction k v d rule: defaultdict_append.induct) (auto simp: image_iff)

lemma map_of_held_under:
  assumes "[] \<notin> snd ` set d"
  shows "map_of d k = (case held_under d k of [] \<Rightarrow> None | v # vs \<Rightarrow> Some (v # vs))"
proof (cases "map_of d k")
  case None
  then show ?thesis by (simp add: held_under_def)
next
  case (Some vs)
  then have "(k, vs) \<in> set d" by (rule map_of_SomeD)
  then have "vs \<noteq> []" using assms by (metis image_eqI snd_conv)
  then show ?thesis using Some by (simp add: held_under_def split: list.splits)
qed

text \<open>One round of the loop that raises nothing: the rate's comparison returned, its
  quotient returned when it was needed, and the points of the entry were appended.\<close>

lemma ingest_Cons:
  assumes "ingest dec (price # rest) raw counts cur = Inr res"
  shows "\<exists>raw2.
     ingest dec rest raw2 (counter_increment (pair_of price) counts)
       (set_add (amount_currency (price_amount price)) (set_add (price_currency price) cur))
       = Inr res \<and>
     (\<forall>k. held_under raw2 k = held_under raw k @ entry_points dec price k) \<and>
     ([] \<notin> snd ` set raw \<longrightarrow> [] \<notin> snd ` set raw2) \<and>
     (\<exists>nonzero. ne_zero dec (amount_number (price_amount price)) = Inr nonzero \<and>
        (nonzero \<longrightarrow> (\<exists>x. one_over dec (amount_number (price_amount price)) = Inr x)))"
proof -
  define rate where "rate = amount_number (price_amount price)"
  define raw1 where "raw1 = defaultdict_append (pair_of price) (price_date price, rate) raw"
  define cur1 where "cur1 =
    set_add (amount_currency (price_amount price)) (set_add (price_currency price) cur)"
  define counts1 where "counts1 = counter_increment (pair_of price) counts"
  have unf: "ingest dec (price # rest) raw counts cur =
    (case ne_zero dec rate of
       Inl e \<Rightarrow> Inl e
     | Inr nonzero \<Rightarrow>
         if nonzero then
           (case one_over dec rate of
              Inl e \<Rightarrow> Inl e
            | Inr x \<Rightarrow>
                ingest dec rest
                  (defaultdict_append (amount_currency (price_amount price), price_currency price)
                     (price_date price, x) raw1)
                  counts1 cur1)
         else ingest dec rest raw1 counts1 cur1)"
    unfolding rate_def raw1_def cur1_def counts1_def pair_of_def by (simp add: Let_def)
  have own: "held_under raw1 k =
      held_under raw k @ (if pair_of price = k then [observed_point price] else [])" for k
    by (simp add: raw1_def held_under_append observed_point_def rate_def)
  have ne1: "[] \<notin> snd ` set raw \<longrightarrow> [] \<notin> snd ` set raw1"
    by (simp add: raw1_def defaultdict_append_nonempty)
  obtain nonzero where nz: "ne_zero dec rate = Inr nonzero"
    using assms unf by (cases "ne_zero dec rate") auto
  show ?thesis
  proof (cases nonzero)
    case False
    have "ingest dec rest raw1 counts1 cur1 = Inr res" using assms unf nz False by simp
    moreover have "held_under raw1 k = held_under raw k @ entry_points dec price k" for k
      using nz False by (simp add: own entry_points_def inverse_points_def rate_def)
    ultimately show ?thesis using ne1 nz False
      unfolding counts1_def cur1_def rate_def by blast
  next
    case True
    obtain x where x: "one_over dec rate = Inr x"
      using assms unf nz True by (cases "one_over dec rate") auto
    define raw2 where "raw2 =
      defaultdict_append (amount_currency (price_amount price), price_currency price)
        (price_date price, x) raw1"
    have "ingest dec rest raw2 counts1 cur1 = Inr res"
      using assms unf nz True x by (simp add: raw2_def)
    moreover have "held_under raw2 k = held_under raw k @ entry_points dec price k" for k
      using nz True x
      by (simp add: own raw2_def held_under_append entry_points_def inverse_points_def rate_def)
    moreover have "[] \<notin> snd ` set raw \<longrightarrow> [] \<notin> snd ` set raw2"
      using ne1 by (simp add: raw2_def defaultdict_append_nonempty)
    ultimately show ?thesis using nz True x
      unfolding counts1_def cur1_def rate_def by blast
  qed
qed

lemma ingest_raw_map:
  "ingest dec price_entries raw counts cur = Inr (raw', counts', cur') \<Longrightarrow>
   [] \<notin> snd ` set raw \<Longrightarrow>
   [] \<notin> snd ` set raw' \<and>
   (\<forall>k. held_under raw' k = held_under raw k @ entries dec price_entries k)"
proof (induction price_entries arbitrary: raw counts cur)
  case Nil
  then show ?case by simp
next
  case (Cons price rest)
  from ingest_Cons[OF Cons.prems(1)] obtain raw2 where r:
    "ingest dec rest raw2 (counter_increment (pair_of price) counts)
       (set_add (amount_currency (price_amount price)) (set_add (price_currency price) cur))
       = Inr (raw', counts', cur')"
    "\<forall>k. held_under raw2 k = held_under raw k @ entry_points dec price k"
    "[] \<notin> snd ` set raw \<longrightarrow> [] \<notin> snd ` set raw2"
    by (elim exE conjE) (rule that; assumption)
  have ne: "[] \<notin> snd ` set raw2" using r(3) Cons.prems(2) by blast
  from Cons.IH[OF r(1) ne] show ?case using r(2) by simp
qed

text \<open>When the loop raises nothing, the comparison returned for every entry and the
  quotient returned for every entry with a non-zero rate.\<close>

lemma ingest_operations_returned:
  "ingest dec price_entries raw counts cur = Inr res \<Longrightarrow>
   \<forall>p \<in> set price_entries.
     \<exists>nonzero. ne_zero dec (amount_number (price_amount p)) = Inr nonzero \<and>
       (nonzero \<longrightarrow> (\<exists>x. one_over dec (amount_number (price_amount p)) = Inr x))"
proof (induction price_entries arbitrary: raw counts cur)
  case Nil
  then show ?case by simp
next
  case (Cons price rest)
  from ingest_Cons[OF Cons.prems(1)] obtain raw2 where r:
    "ingest dec rest raw2 (counter_increment (pair_of price) counts)
       (set_add (amount_currency (price_amount price)) (set_add (price_currency price) cur))
       = Inr res"
    "\<exists>nonzero. ne_zero dec (amount_number (price_amount price)) = Inr nonzero \<and>
        (nonzero \<longrightarrow> (\<exists>x. one_over dec (amount_number (price_amount price)) = Inr x))"
    by blast
  from Cons.IH[OF r(1)] r(2) show ?case by simp
qed

lemma counter_get_increment:
  "counter_get (counter_increment k c) k' =
     (if k' = k then counter_get c k + 1 else counter_get c k')"
  by (induction k c rule: counter_increment.induct) (auto simp: counter_get_def)

lemma keys_counter_increment: "fst ` set (counter_increment k c) = insert k (fst ` set c)"
  by (induction k c rule: counter_increment.induct) auto

lemma distinct_counter_increment:
  "distinct (map fst c) \<Longrightarrow> distinct (map fst (counter_increment k c))"
  by (induction k c rule: counter_increment.induct) (auto simp: keys_counter_increment)

lemma ingest_counts:
  "ingest dec price_entries raw counts cur = Inr (raw', counts', cur') \<Longrightarrow>
   distinct (map fst counts) \<Longrightarrow>
   distinct (map fst counts') \<and>
   (\<forall>k. counter_get counts' k = counter_get counts k + observation_count price_entries k)"
proof (induction price_entries arbitrary: raw counts cur)
  case Nil
  then show ?case by (simp add: observation_count_def)
next
  case (Cons price rest)
  define counts1 where "counts1 = counter_increment (pair_of price) counts"
  have d: "distinct (map fst counts1)"
    using Cons.prems(2) by (simp add: counts1_def distinct_counter_increment)
  from ingest_Cons[OF Cons.prems(1)] obtain raw2 where
    "ingest dec rest raw2 (counter_increment (pair_of price) counts)
       (set_add (amount_currency (price_amount price)) (set_add (price_currency price) cur))
       = Inr (raw', counts', cur')"
    by (elim exE conjE) (rule that; assumption)
  then have "ingest dec rest raw2 counts1
       (set_add (amount_currency (price_amount price)) (set_add (price_currency price) cur))
       = Inr (raw', counts', cur')"
    by (simp add: counts1_def)
  from Cons.IH[OF this d] show ?case
    by (auto simp: counts1_def counter_get_increment observation_count_def)
qed

lemma forward_pairs_of_set:
  assumes "distinct (map fst c)"
  shows "set (forward_pairs_of c) = {(b, q). counter_get c (q, b) < counter_get c (b, q)}"
proof (intro set_eqI iffI)
  fix k assume "k \<in> set (forward_pairs_of c)"
  then obtain b q n where k: "k = (b, q)" "((b, q), n) \<in> set c" "counter_get c (q, b) < n"
    by (auto simp: forward_pairs_of_def)
  then have "map_of c (b, q) = Some n" using assms by simp
  then show "k \<in> {(b, q). counter_get c (q, b) < counter_get c (b, q)}"
    using k by (simp add: counter_get_def)
next
  fix k assume "k \<in> {(b, q). counter_get c (q, b) < counter_get c (b, q)}"
  then obtain b q where k: "k = (b, q)" "counter_get c (q, b) < counter_get c (b, q)" by auto
  then obtain n where n: "map_of c (b, q) = Some n" "counter_get c (b, q) = n"
    by (cases "map_of c (b, q)") (auto simp: counter_get_def)
  then have "((b, q), n) \<in> set c" by (simp add: map_of_SomeD)
  then show "k \<in> set (forward_pairs_of c)"
    using k n by (force simp: forward_pairs_of_def)
qed

lemma keep_last_all_map:
  "[] \<notin> snd ` set raw \<Longrightarrow>
   \<exists>m. keep_last_all raw = Inr m \<and>
       (\<forall>k. map_of m k =
            (case map_of raw k of None \<Rightarrow> None
             | Some ps \<Rightarrow> Some (keep_last_loop (hd ps) (tl ps))))"
proof (induction raw)
  case Nil
  then show ?case by simp
next
  case (Cons kv rest)
  obtain k ps where kv: "kv = (k, ps)" by (cases kv)
  have "ps \<noteq> []" using Cons.prems kv by (metis image_eqI list.set_intros(1) snd_conv)
  then obtain p ps' where ps: "ps = p # ps'" by (cases ps) auto
  have "[] \<notin> snd ` set rest" using Cons.prems by auto
  from Cons.IH[OF this] obtain m where m: "keep_last_all rest = Inr m"
    "\<forall>k. map_of m k = (case map_of rest k of None \<Rightarrow> None
             | Some ps \<Rightarrow> Some (keep_last_loop (hd ps) (tl ps)))" by blast
  show ?case using m by (simp add: kv ps)
qed

text \<open>A constructed index: its forward pairs, its stored series, and the operations that
  returned on the way.\<close>

lemma FavaPriceMap_init_built:
  assumes "FavaPriceMap_init dec set_order price_entries = Inr self"
  shows "set (fpm_forward_pairs self) =
       {(b, q). observation_count price_entries (q, b) < observation_count price_entries (b, q)}"
    and "\<forall>k. map_of (fpm_map self) k =
          (case entries dec price_entries k of
             [] \<Rightarrow> None | p # ps \<Rightarrow> Some (keep_last_loop p ps))"
    and "\<forall>p \<in> set price_entries.
       \<exists>nonzero. ne_zero dec (amount_number (price_amount p)) = Inr nonzero \<and>
         (nonzero \<longrightarrow> (\<exists>x. one_over dec (amount_number (price_amount p)) = Inr x))"
proof -
  obtain raw counts cur where i: "ingest dec price_entries [] [] [] = Inr (raw, counts, cur)"
    using assms by (cases "ingest dec price_entries [] [] []") (auto simp: FavaPriceMap_init_def)
  have r: "[] \<notin> snd ` set raw" "\<forall>k. held_under raw k = entries dec price_entries k"
    using ingest_raw_map[OF i] by (simp_all add: held_under_def)
  have c: "distinct (map fst counts)" "\<forall>k. counter_get counts k = observation_count price_entries k"
    using ingest_counts[OF i] by (simp_all add: counter_get_def)
  obtain m where m: "keep_last_all raw = Inr m"
    "\<forall>k. map_of m k = (case map_of raw k of None \<Rightarrow> None
             | Some ps \<Rightarrow> Some (keep_last_loop (hd ps) (tl ps)))"
    using keep_last_all_map[OF r(1)] by blast
  have self: "self = \<lparr>fpm_currencies = set_order cur, fpm_forward_pairs = forward_pairs_of counts,
                      fpm_map = m\<rparr>"
    using assms by (simp add: FavaPriceMap_init_def i m(1))
  have mk: "map_of m k =
      (case entries dec price_entries k of [] \<Rightarrow> None | p # ps \<Rightarrow> Some (keep_last_loop p ps))"
    for k
  proof -
    have hk: "held_under raw k = entries dec price_entries k" using r(2) by blast
    have mr: "map_of m k = (case map_of raw k of None \<Rightarrow> None
             | Some ps \<Rightarrow> Some (keep_last_loop (hd ps) (tl ps)))" using m(2) by blast
    show ?thesis
    proof (cases "entries dec price_entries k")
      case Nil
      then have "map_of raw k = None" using hk map_of_held_under[OF r(1), of k] by simp
      then show ?thesis using mr Nil by simp
    next
      case (Cons p ps)
      then have "map_of raw k = Some (p # ps)" using hk map_of_held_under[OF r(1), of k] by simp
      then show ?thesis using mr Cons by simp
    qed
  qed
  show "set (fpm_forward_pairs self) =
       {(b, q). observation_count price_entries (q, b) < observation_count price_entries (b, q)}"
    using forward_pairs_of_set[OF c(1)] c(2) by (simp add: self)
  show "\<forall>k. map_of (fpm_map self) k =
          (case entries dec price_entries k of
             [] \<Rightarrow> None | p # ps \<Rightarrow> Some (keep_last_loop p ps))"
    using mk by (simp add: self)
  show "\<forall>p \<in> set price_entries.
       \<exists>nonzero. ne_zero dec (amount_number (price_amount p)) = Inr nonzero \<and>
         (nonzero \<longrightarrow> (\<exists>x. one_over dec (amount_number (price_amount p)) = Inr x))"
    by (rule ingest_operations_returned[OF i])
qed

section \<open>The series of a date-ascending stream\<close>

lemma inverse_points_cases:
  "inverse_points dec price = [] \<or> (\<exists>x. inverse_points dec price = [(price_date price, x)])"
  by (simp add: inverse_points_def split: sum.split)

lemma entry_points_dates: "fst ` set (entry_points dec price k) \<subseteq> {price_date price}"
  using inverse_points_cases[of dec price]
  by (auto simp: entry_points_def observed_point_def)

lemma entries_dates:
  "fst ` set (entries dec price_entries k) \<subseteq> price_date ` set price_entries"
proof (induction price_entries)
  case Nil
  then show ?case by simp
next
  case (Cons price rest)
  have "fst ` set (entry_points dec price k) \<subseteq> {price_date price}"
    by (rule entry_points_dates)
  then show ?case using Cons.IH by (auto simp: image_Un)
qed

lemma sorted_entry_points: "sorted (map fst (entry_points dec price k))"
  using inverse_points_cases[of dec price]
  by (auto simp: entry_points_def observed_point_def)

lemma entries_sorted:
  "date_ascending price_entries \<Longrightarrow> sorted (map fst (entries dec price_entries k))"
proof (induction price_entries)
  case Nil
  then show ?case by simp
next
  case (Cons price rest)
  have r: "date_ascending rest" and le: "\<forall>d \<in> set (map price_date rest). price_date price \<le> d"
    using Cons.prems by (auto simp: date_ascending_def)
  have "\<forall>x \<in> set (entry_points dec price k). \<forall>y \<in> set (entries dec rest k). fst x \<le> fst y"
  proof (intro ballI)
    fix x y assume "x \<in> set (entry_points dec price k)" "y \<in> set (entries dec rest k)"
    then have "fst x = price_date price" "fst y \<in> price_date ` set rest"
      using entry_points_dates[of dec price k] entries_dates[of dec rest k] by auto
    then show "fst x \<le> fst y" using le by auto
  qed
  then show ?case using Cons.IH[OF r] sorted_entry_points[of dec price k]
    by (simp add: sorted_append)
qed

section \<open>\<^verbatim>\<open>get_price_point\<close>: the direct branch and the loop over currencies\<close>

lemma get_price_point_direct_latest:
  "base \<noteq> quote \<Longrightarrow> map_of (fpm_map self) (base, quote) = Some price_list \<Longrightarrow>
   get_price_point self (base, quote) None =
     (if price_list = [] then Inl IndexError else Inr (point (last price_list)))"
  by (simp add: list_last_def)

lemma get_price_point_direct_sorted:
  "base \<noteq> quote \<Longrightarrow> map_of (fpm_map self) (base, quote) = Some price_list \<Longrightarrow>
   sorted (map fst price_list) \<Longrightarrow>
   get_price_point self (base, quote) (Some d) = Inr (latest_upto price_list d)"
  using direct_date_lookup[of price_list d] by simp

lemma get_price_point_direct_total:
  assumes "base \<noteq> quote" "map_of (fpm_map self) (base, quote) = Some price_list" "price_list \<noteq> []"
  shows "\<exists>p. get_price_point self (base, quote) date = Inr p \<and>
             (p = (None, None) \<or> (\<exists>e \<in> set price_list. p = point e))"
proof (cases date)
  case None
  have "last price_list \<in> set price_list" using assms(3) by simp
  then show ?thesis using assms None by (auto simp: list_last_def)
next
  case (Some d)
  let ?n = "bisect (DateKeyWrapper price_list) d"
  have "?n \<le> length price_list" using bisect_le_length[of "map fst price_list" d]
    by (simp add: DateKeyWrapper_def)
  then have lt: "?n \<noteq> 0 \<Longrightarrow> ?n - 1 < length price_list" by simp
  show ?thesis
  proof (cases "?n = 0")
    case True
    then show ?thesis using assms Some by (simp add: Let_def)
  next
    case False
    have "get_price_point self (base, quote) date = Inr (point (price_list ! (?n - 1)))"
      using assms Some False lt by (simp add: list_get_def Let_def)
    moreover have "price_list ! (?n - 1) \<in> set price_list" using lt False by simp
    ultimately show ?thesis by blast
  qed
qed

lemma via_currency_total:
  assumes ne: "\<forall>k ps. map_of (fpm_map self) k = Some ps \<longrightarrow> ps \<noteq> []"
  shows "\<exists>p. via_currency self (base, quote) date cs = Inr p \<and>
             (p = (None, None) \<or> (\<exists>d x. p = (Some d, Some x)))"
proof (induction cs)
  case Nil
  then show ?case by simp
next
  case (Cons c cs)
  show ?case
  proof (cases "c = base \<or> c = quote")
    case True
    then show ?thesis using Cons.IH by auto
  next
    case nb: False
    show ?thesis
    proof (cases "map_of (fpm_map self) (base, c)")
      case None
      then show ?thesis using nb Cons.IH by simp
    next
      case s1: (Some pl1)
      show ?thesis
      proof (cases "map_of (fpm_map self) (c, quote)")
        case None
        then show ?thesis using nb s1 Cons.IH by simp
      next
        case s2: (Some pl2)
        have n1: "pl1 \<noteq> []" and n2: "pl2 \<noteq> []" using ne s1 s2 by blast+
        have r1: "\<exists>p. get_price_point self (c, quote) dt = Inr p \<and>
             (p = (None, None) \<or> (\<exists>d x. p = (Some d, Some x)))" for dt
          using get_price_point_direct_total[OF _ s2 n2, of dt] nb by (auto simp: point_def)
        have r2: "\<exists>p. get_price_point self (base, c) dt = Inr p \<and>
             (p = (None, None) \<or> (\<exists>d x. p = (Some d, Some x)))" for dt
          using get_price_point_direct_total[OF _ s1 n1, of dt] nb by (auto simp: point_def)
        show ?thesis
        proof (cases date)
          case None
          then show ?thesis using nb s1 s2 n1 n2 r1 r2
            by (simp add: list_last_def del: get_price_point.simps)
        next
          case (Some d)
          let ?n = "bisect (DateKeyWrapper pl1) d"
          have "?n \<le> length pl1" using bisect_le_length[of "map fst pl1" d]
            by (simp add: DateKeyWrapper_def)
          then have "?n \<noteq> 0 \<Longrightarrow> ?n - 1 < length pl1" by simp
          then show ?thesis using nb s1 s2 Some r1
            by (simp add: list_get_def Let_def del: get_price_point.simps)
        qed
      qed
    qed
  qed
qed

lemma get_price_point_total:
  assumes ne: "\<forall>k ps. map_of (fpm_map self) k = Some ps \<longrightarrow> ps \<noteq> []" and "base \<noteq> quote"
  shows "\<exists>p. get_price_point self (base, quote) date = Inr p \<and>
             (p = (None, None) \<or> (\<exists>d x. p = (Some d, Some x)))"
proof (cases "map_of (fpm_map self) (base, quote)")
  case None
  then show ?thesis using assms(2) via_currency_total[OF ne] by simp
next
  case (Some pl)
  then have "pl \<noteq> []" using ne by blast
  then show ?thesis using get_price_point_direct_total[OF assms(2) Some, of date]
    by (auto simp: point_def)
qed

section \<open>Depth of the recursion\<close>

lemma depth_direct:
  "base = quote \<or> map_of (fpm_map self) (base, quote) \<noteq> None \<Longrightarrow>
   get_price_point_depth (Suc n) self (base, quote) date =
     Some (get_price_point self (base, quote) date)"
  by (auto simp: Let_def split: option.splits sum.splits)

lemma via_currency_depth_one:
  "via_currency_depth (Suc n) self (base, quote) date cs =
     Some (via_currency self (base, quote) date cs)"
proof (induction cs)
  case Nil
  then show ?case by simp
next
  case (Cons c cs)
  have d1: "c \<noteq> quote \<Longrightarrow> map_of (fpm_map self) (c, quote) = Some pl2 \<Longrightarrow>
     get_price_point_depth (Suc n) self (c, quote) dt = Some (get_price_point self (c, quote) dt)"
    for pl2 dt using depth_direct[of c quote self n dt] by simp
  have d2: "c \<noteq> base \<Longrightarrow> map_of (fpm_map self) (base, c) = Some pl1 \<Longrightarrow>
     get_price_point_depth (Suc n) self (base, c) dt = Some (get_price_point self (base, c) dt)"
    for pl1 dt using depth_direct[of base c self n dt] by simp
  show ?case using Cons.IH d1 d2
    by (simp add: Let_def split: option.splits sum.splits
        del: get_price_point.simps get_price_point_depth.simps)
qed

lemma get_price_point_depth_two:
  "get_price_point_depth (Suc (Suc n)) self (base, quote) date =
     Some (get_price_point self (base, quote) date)"
proof (cases "base = quote \<or> map_of (fpm_map self) (base, quote) \<noteq> None")
  case True
  then show ?thesis by (rule depth_direct)
next
  case False
  then show ?thesis using via_currency_depth_one[of n self base quote date "fpm_currencies self"]
    by simp
qed

section \<open>Evaluating dates\<close>

lemma date_less [simp]:
  "Date y m d < Date y' m' d' \<longleftrightarrow> y < y' \<or> y = y' \<and> (m < m' \<or> m = m' \<and> d < d')"
  by (auto simp: less_date_def)

lemma date_less_eq [simp]:
  "Date y m d \<le> Date y' m' d' \<longleftrightarrow> y < y' \<or> y = y' \<and> (m < m' \<or> m = m' \<and> d \<le> d')"
  by (auto simp: less_eq_date_def)

section \<open>\<^verbatim>\<open>commodity_pairs\<close>\<close>

lemma extra_operating_pairs_eq:
  "extra_operating_pairs fwd ops =
     map prod.swap (filter (\<lambda>(base, quote). base \<in> set ops \<and> quote \<in> set ops) fwd)"
  by (induction fwd ops rule: extra_operating_pairs.induct) auto

lemma set_commodity_pairs:
  "set (commodity_pairs self ops) =
     set (fpm_forward_pairs self) \<union>
     {(quote, base) | base quote.
        (base, quote) \<in> set (fpm_forward_pairs self) \<and> base \<in> set ops \<and> quote \<in> set ops}"
  by (auto simp: commodity_pairs_def extra_operating_pairs_eq)

section \<open>Facts about constructed indexes\<close>

lemma entries_append: "entries dec (xs @ ys) k = entries dec xs k @ entries dec ys k"
  by (induction xs) auto

lemma entries_member:
  "y \<in> set (entries dec price_entries k) \<Longrightarrow>
   \<exists>p \<in> set price_entries. y \<in> set (entry_points dec p k)"
  by (induction price_entries) auto

lemma latest_upto_alt:
  "latest_upto ps d =
     (if filter (\<lambda>p. fst p \<le> d) ps = [] then (None, None)
      else point (last (filter (\<lambda>p. fst p \<le> d) ps)))"
  by (simp add: latest_upto_def split: list.splits)

lemma latest_upto_last_on_date:
  assumes "\<forall>y \<in> set after. d < fst y"
  shows "latest_upto (before @ (d, x) # after) d = (Some d, Some x)"
proof -
  have "filter (\<lambda>p. fst p \<le> d) after = []" using assms by (intro filter_False) auto
  then have "filter (\<lambda>p. fst p \<le> d) (before @ (d, x) # after) =
             filter (\<lambda>p. fst p \<le> d) before @ [(d, x)]" by simp
  then show ?thesis by (simp add: latest_upto_alt point_def)
qed

lemma built_series_nonempty:
  assumes "\<forall>k. map_of m k =
     (case entries dec price_entries k of [] \<Rightarrow> None | p # ps \<Rightarrow> Some (keep_last_loop p ps))"
  shows "\<forall>k ps. map_of m k = Some ps \<longrightarrow> ps \<noteq> []"
proof (intro allI impI)
  fix k ps assume "map_of m k = Some ps"
  then show "ps \<noteq> []" using assms[rule_format, of k]
    by (cases "entries dec price_entries k") (auto simp: keep_last_loop_nonempty)
qed

lemma built_series_strict:
  assumes "\<forall>k. map_of m k =
     (case entries dec price_entries k of [] \<Rightarrow> None | p # ps \<Rightarrow> Some (keep_last_loop p ps))"
    and "date_ascending price_entries" and "map_of m k = Some ps"
  shows "strictly_increasing ps"
proof -
  obtain e es where e: "entries dec price_entries k = e # es" "ps = keep_last_loop e es"
    using assms(1)[rule_format, of k] assms(3) by (cases "entries dec price_entries k") auto
  have "sorted (map fst (e # es))" using entries_sorted[OF assms(2), of dec k] e by simp
  then show ?thesis unfolding strictly_increasing_def e(2) by (rule keep_last_loop_strict)
qed

lemma keep_last_loop_sorted:
  assumes "sorted (map fst (p # ps))"
  shows "sorted (map fst (keep_last_loop p ps))"
  by (rule strict_sorted_imp_sorted) (rule keep_last_loop_strict[OF assms])

lemma via_currency_no_hop:
  "\<forall>c \<in> set cs. c = base \<or> c = quote \<or> map_of (fpm_map self) (base, c) = None \<or>
      map_of (fpm_map self) (c, quote) = None \<Longrightarrow>
   via_currency self (base, quote) date cs = Inr (None, None)"
  by (induction cs) (auto split: option.splits)

section \<open>Series and observations\<close>

lemma inverse_points_zero:
  "ne_zero dec (amount_number (price_amount price)) = Inr False \<Longrightarrow>
   inverse_points dec price = []"
  by (simp add: inverse_points_def)

lemma inverse_points_nonzero:
  "ne_zero dec (amount_number (price_amount price)) = Inr True \<Longrightarrow>
   one_over dec (amount_number (price_amount price)) = Inr x \<Longrightarrow>
   inverse_points dec price = [(price_date price, x)]"
  by (simp add: inverse_points_def)

lemma entry_points_proper:
  "fst k \<noteq> snd k \<Longrightarrow>
   entry_points dec price k =
     (if pair_of price = k then [observed_point price]
      else if pair_of price = (snd k, fst k) then inverse_points dec price
      else [])"
  by (cases k) (auto simp: entry_points_def pair_of_def)

lemma on_date_entries_observed:
  assumes "fst k \<noteq> snd k"
    and "\<forall>p \<in> set price_entries. price_date p = d \<and> pair_of p = (snd k, fst k) \<longrightarrow>
           ne_zero dec (amount_number (price_amount p)) = Inr False"
  shows "on_date d (entries dec price_entries k) =
           map observed_point (observations_on d k price_entries)"
  using assms(2)
proof (induction price_entries)
  case Nil
  then show ?case by (simp add: on_date_def observations_on_def)
next
  case (Cons p rest)
  have ih: "on_date d (entries dec rest k) = map observed_point (observations_on d k rest)"
    using Cons by simp
  have z: "price_date p = d \<and> pair_of p = (snd k, fst k) \<longrightarrow> inverse_points dec p = []"
    using Cons.prems inverse_points_zero[of dec p] by simp
  have dates: "\<forall>y \<in> set (inverse_points dec p). fst y = price_date p"
    using inverse_points_cases[of dec p] by auto
  have "on_date d (entry_points dec p k) = map observed_point (observations_on d k [p])"
  proof (cases "pair_of p = k")
    case True
    then show ?thesis using assms(1)
      by (auto simp: entry_points_proper on_date_def observations_on_def observed_point_def)
  next
    case False
    have "on_date d (inverse_points dec p) = []" if "pair_of p = (snd k, fst k)"
    proof (cases "price_date p = d")
      case True
      then show ?thesis using z that by (simp add: on_date_def)
    next
      case False
      then show ?thesis using dates unfolding on_date_def by (intro filter_False) auto
    qed
    then show ?thesis using False assms(1)
      by (auto simp: entry_points_proper on_date_def observations_on_def)
  qed
  then show ?case using ih by (simp add: on_date_def observations_on_def)
qed

lemma entries_empty:
  "\<forall>p \<in> set price_entries. pair_of p \<noteq> (a, b) \<and>
      (pair_of p = (b, a) \<longrightarrow> ne_zero dec (amount_number (price_amount p)) = Inr False) \<Longrightarrow>
   entries dec price_entries (a, b) = []"
proof (induction price_entries)
  case Nil
  then show ?case by simp
next
  case (Cons p rest)
  have h: "pair_of p \<noteq> (a, b)"
    "pair_of p = (b, a) \<longrightarrow> ne_zero dec (amount_number (price_amount p)) = Inr False"
    using Cons.prems by simp_all
  have "inverse_points dec p = []"
    if "(amount_currency (price_amount p), price_currency p) = (a, b)"
  proof -
    have "pair_of p = (b, a)" using that by (simp add: pair_of_def)
    then show ?thesis using h(2) inverse_points_zero[of dec p] by blast
  qed
  then have "entry_points dec p (a, b) = []" using h(1) by (simp add: entry_points_def)
  moreover have "entries dec rest (a, b) = []" using Cons by simp
  ultimately show ?case by simp
qed

section \<open>The claims\<close>

text \<open>
  C1. The claim: with series for \<open>(A, C)\<close> and \<open>(C, B)\<close> and none for \<open>(A, B)\<close>,
  \<^verbatim>\<open>get_price(A, B, d)\<close> is the product of the two legs' rates at the pivot date, and the date
  of \<^verbatim>\<open>get_price_point\<close> is the pivot date. The code returns the recursive call on one leg
  as it is. On the entries \<^verbatim>\<open>2021-01-01 price C 4 B\<close>, \<^verbatim>\<open>2021-02-01 price A 2 C\<close> and the
  query \<open>(A, B)\<close> at 2021-03-01 the pivot is 2021-02-01, the legs' rates there are \<open>2\<close> and \<open>4\<close>,
  and the result is the point \<open>(2021-01-01, 4)\<close> of the leg \<open>(C, B)\<close>: neither the product \<open>8\<close>
  nor the pivot date. Without a date the result on the same entries is no data. Only \<open>C\<close>
  can be the third currency here, so the order in which the currency set is enumerated
  plays no part.
\<close>

theorem C1_fallback_returns_one_leg:
  "FavaPriceMap_init exact_decimal (\<lambda>cs. cs)
     [price_entry (Date 2021 1 1) ''C'' (4::rat) ''B'', price_entry (Date 2021 2 1) ''A'' 2 ''C''] =
   Inr \<lparr>fpm_currencies = [''C'', ''B'', ''A''],
      fpm_forward_pairs = [(''C'', ''B''), (''A'', ''C'')],
      fpm_map =
        [((''C'', ''B''), [(Date 2021 1 1, 4::rat)]),
         ((''B'', ''C''), [(Date 2021 1 1, 1 / 4)]),
         ((''A'', ''C''), [(Date 2021 2 1, 2)]),
         ((''C'', ''A''), [(Date 2021 2 1, 1 / 2)])]\<rparr> \<and>
   get_price_point
     \<lparr>fpm_currencies = [''C'', ''B'', ''A''],
      fpm_forward_pairs = [(''C'', ''B''), (''A'', ''C'')],
      fpm_map =
        [((''C'', ''B''), [(Date 2021 1 1, 4::rat)]),
         ((''B'', ''C''), [(Date 2021 1 1, 1 / 4)]),
         ((''A'', ''C''), [(Date 2021 2 1, 2)]),
         ((''C'', ''A''), [(Date 2021 2 1, 1 / 2)])]\<rparr>
     (''A'', ''B'') (Some (Date 2021 3 1)) = Inr (Some (Date 2021 1 1), Some 4) \<and>
   get_price
     \<lparr>fpm_currencies = [''C'', ''B'', ''A''],
      fpm_forward_pairs = [(''C'', ''B''), (''A'', ''C'')],
      fpm_map =
        [((''C'', ''B''), [(Date 2021 1 1, 4::rat)]),
         ((''B'', ''C''), [(Date 2021 1 1, 1 / 4)]),
         ((''A'', ''C''), [(Date 2021 2 1, 2)]),
         ((''C'', ''A''), [(Date 2021 2 1, 1 / 2)])]\<rparr>
     (''A'', ''C'') (Some (Date 2021 2 1)) = Inr (Some 2) \<and>
   get_price
     \<lparr>fpm_currencies = [''C'', ''B'', ''A''],
      fpm_forward_pairs = [(''C'', ''B''), (''A'', ''C'')],
      fpm_map =
        [((''C'', ''B''), [(Date 2021 1 1, 4::rat)]),
         ((''B'', ''C''), [(Date 2021 1 1, 1 / 4)]),
         ((''A'', ''C''), [(Date 2021 2 1, 2)]),
         ((''C'', ''A''), [(Date 2021 2 1, 1 / 2)])]\<rparr>
     (''C'', ''B'') (Some (Date 2021 2 1)) = Inr (Some 4) \<and>
   get_price_point
     \<lparr>fpm_currencies = [''C'', ''B'', ''A''],
      fpm_forward_pairs = [(''C'', ''B''), (''A'', ''C'')],
      fpm_map =
        [((''C'', ''B''), [(Date 2021 1 1, 4::rat)]),
         ((''B'', ''C''), [(Date 2021 1 1, 1 / 4)]),
         ((''A'', ''C''), [(Date 2021 2 1, 2)]),
         ((''C'', ''A''), [(Date 2021 2 1, 1 / 2)])]\<rparr>
     (''A'', ''B'') None = Inr (None, None)"
  by (simp add: FavaPriceMap_init_def exact_decimal_def price_entry_def Let_def set_add_def forward_pairs_of_def
      counter_get_def get_price_def bisect_def bisect_loop.simps DateKeyWrapper_def
      list_get_def list_last_def point_def)

text \<open>
  C2. The claim: when \<open>(A, B)\<close> and \<open>(B, A)\<close> have equal observation counts, the forward
  pairs (and \<^verbatim>\<open>commodity_pairs\<close>) include exactly one of them, the direction seen first. The
  code keeps a direction only when its count is strictly greater than the reverse count,
  so on a tie it keeps neither: on \<^verbatim>\<open>2021-01-01 price A 2 B\<close>, \<^verbatim>\<open>2021-01-02 price B 4 A\<close>
  each direction has one observation, prices are stored in both directions, there is no
  forward pair, and \<^verbatim>\<open>commodity_pairs\<close> is empty even with \<open>A\<close> and \<open>B\<close> as operating
  currencies, which its docstring says are listed in both directions.
\<close>

theorem C2_tie_keeps_neither_direction:
  "observation_count
     [price_entry (Date 2021 1 1) ''A'' (2::rat) ''B'', price_entry (Date 2021 1 2) ''B'' 4 ''A'']
     (''A'', ''B'') = 1 \<and>
   observation_count
     [price_entry (Date 2021 1 1) ''A'' (2::rat) ''B'', price_entry (Date 2021 1 2) ''B'' 4 ''A'']
     (''B'', ''A'') = 1 \<and>
   FavaPriceMap_init exact_decimal (\<lambda>cs. cs)
     [price_entry (Date 2021 1 1) ''A'' (2::rat) ''B'', price_entry (Date 2021 1 2) ''B'' 4 ''A''] =
   Inr \<lparr>fpm_currencies = [''A'', ''B''], fpm_forward_pairs = [],
      fpm_map =
        [((''A'', ''B''), [(Date 2021 1 1, 2::rat), (Date 2021 1 2, 1 / 4)]),
         ((''B'', ''A''), [(Date 2021 1 1, 1 / 2), (Date 2021 1 2, 4)])]\<rparr> \<and>
   commodity_pairs
     \<lparr>fpm_currencies = [''A'', ''B''], fpm_forward_pairs = [],
      fpm_map =
        [((''A'', ''B''), [(Date 2021 1 1, 2::rat), (Date 2021 1 2, 1 / 4)]),
         ((''B'', ''A''), [(Date 2021 1 1, 1 / 2), (Date 2021 1 2, 4)])]\<rparr>
     [] = [] \<and>
   commodity_pairs
     \<lparr>fpm_currencies = [''A'', ''B''], fpm_forward_pairs = [],
      fpm_map =
        [((''A'', ''B''), [(Date 2021 1 1, 2::rat), (Date 2021 1 2, 1 / 4)]),
         ((''B'', ''A''), [(Date 2021 1 1, 1 / 2), (Date 2021 1 2, 4)])]\<rparr>
     [''A'', ''B''] = []"
  by (simp add: FavaPriceMap_init_def exact_decimal_def price_entry_def Let_def set_add_def forward_pairs_of_def
      counter_get_def observation_count_def pair_of_def commodity_pairs_def)

text \<open>
  C3. For a directed pair (two distinct currencies) whose stored series has the dates
  \<open>d1 < d2 < d3\<close>: a query at a date \<open>d\<close> with \<open>d2 \<le> d < d3\<close> returns the point at \<open>d2\<close>,
  a query at \<open>d < d1\<close> returns no data, and a query without a date returns the point at
  \<open>d3\<close>. (A pair \<open>(X, X)\<close> is answered by the identity, C4, whatever is stored.)
\<close>

theorem C3_lookup_by_date:
  assumes "base \<noteq> quote"
    and "map_of (fpm_map self) (base, quote) = Some [(d1, r1), (d2, r2), (d3, r3)]"
    and "d1 < d2" and "d2 < d3"
  shows "(d2 \<le> d \<and> d < d3 \<longrightarrow>
            get_price_point self (base, quote) (Some d) = Inr (Some d2, Some r2)) \<and>
         (d < d1 \<longrightarrow> get_price_point self (base, quote) (Some d) = Inr (None, None)) \<and>
         get_price_point self (base, quote) None = Inr (Some d3, Some r3)"
proof -
  let ?ps = "[(d1, r1), (d2, r2), (d3, r3)]"
  have s: "sorted (map fst ?ps)" using assms(3,4) by auto
  have g: "get_price_point self (base, quote) (Some d) = Inr (latest_upto ?ps d)"
    by (rule get_price_point_direct_sorted[OF assms(1,2) s])
  have a: "d2 \<le> d \<and> d < d3 \<longrightarrow> latest_upto ?ps d = (Some d2, Some r2)"
    using assms(3,4) by (auto simp: latest_upto_def point_def)
  have b: "d < d1 \<longrightarrow> latest_upto ?ps d = (None, None)"
    using assms(3,4) by (auto simp: latest_upto_def point_def)
  have c: "get_price_point self (base, quote) None = Inr (Some d3, Some r3)"
    using get_price_point_direct_latest[OF assms(1,2)] by (simp add: point_def)
  show ?thesis using g a b c by simp
qed

theorem C3_lookup_by_date_witness:
  "get_price_point
     \<lparr>fpm_currencies = [''USD'', ''EUR''], fpm_forward_pairs = [(''USD'', ''EUR'')],
      fpm_map =
        [((''USD'', ''EUR''),
          [(Date 2021 1 1, 17 / 20 :: rat), (Date 2021 2 1, 9 / 10), (Date 2021 3 1, 19 / 20)]),
         ((''EUR'', ''USD''),
          [(Date 2021 1 1, 20 / 17), (Date 2021 2 1, 10 / 9), (Date 2021 3 1, 20 / 19)])]\<rparr>
     (''USD'', ''EUR'') (Some (Date 2021 2 15)) = Inr (Some (Date 2021 2 1), Some (9 / 10)) \<and>
   get_price_point
     \<lparr>fpm_currencies = [''USD'', ''EUR''], fpm_forward_pairs = [(''USD'', ''EUR'')],
      fpm_map =
        [((''USD'', ''EUR''),
          [(Date 2021 1 1, 17 / 20 :: rat), (Date 2021 2 1, 9 / 10), (Date 2021 3 1, 19 / 20)]),
         ((''EUR'', ''USD''),
          [(Date 2021 1 1, 20 / 17), (Date 2021 2 1, 10 / 9), (Date 2021 3 1, 20 / 19)])]\<rparr>
     (''USD'', ''EUR'') None = Inr (Some (Date 2021 3 1), Some (19 / 20))"
  using C3_lookup_by_date[of "''USD''" "''EUR''"
      "\<lparr>fpm_currencies = [''USD'', ''EUR''], fpm_forward_pairs = [(''USD'', ''EUR'')],
        fpm_map =
          [((''USD'', ''EUR''),
            [(Date 2021 1 1, 17 / 20 :: rat), (Date 2021 2 1, 9 / 10), (Date 2021 3 1, 19 / 20)]),
           ((''EUR'', ''USD''),
            [(Date 2021 1 1, 20 / 17), (Date 2021 2 1, 10 / 9), (Date 2021 3 1, 20 / 19)])]\<rparr>"
      "Date 2021 1 1" "17 / 20" "Date 2021 2 1" "9 / 10" "Date 2021 3 1" "19 / 20"
      "Date 2021 2 15"]
  by (simp del: get_price_point.simps)

text \<open>
  C4. For every currency \<open>X\<close>, every date or none, and every index,
  \<^verbatim>\<open>get_price_point(X, X, date)\<close> is rate \<open>1\<close> with date \<open>None\<close>; the call reads no stored
  series and makes no recursive call (a depth allowance of one call suffices).
\<close>

theorem C4_identity:
  "get_price_point self (x, x) date = Inr (None, Some 1) \<and>
   get_price_point_depth 1 self (x, x) date = Some (Inr (None, Some 1))"
  by simp

theorem C4_identity_witness:
  "get_price_point
     \<lparr>fpm_currencies = [''USD''], fpm_forward_pairs = [],
      fpm_map = [((''USD'', ''USD''), [(Date 2021 1 1, 1 / 2 :: rat)])]\<rparr>
     (''USD'', ''USD'') (Some (Date 2021 1 1)) = Inr (None, Some 1)"
  using C4_identity[of
      "\<lparr>fpm_currencies = [''USD''], fpm_forward_pairs = [],
        fpm_map = [((''USD'', ''USD''), [(Date 2021 1 1, 1 / 2 :: rat)])]\<rparr>"
      "''USD''" "Some (Date 2021 1 1)"]
  by (simp del: get_price_point.simps)

text \<open>
  C5. The claim: after an observation of \<open>(A, B)\<close> with rate \<open>r \<noteq> 0\<close> on date \<open>d\<close>,
  \<^verbatim>\<open>get_price_point(B, A, d)\<close> is \<open>1 / r\<close> at \<open>d\<close> unless a direct \<open>(B, A)\<close> observation on
  that date overrides it. A later observation of \<open>(A, B)\<close> itself on the same date overrides
  it too, through its own inverse: on \<^verbatim>\<open>2021-01-01 price A 2 B\<close>, \<^verbatim>\<open>2021-01-01 price A 4 B\<close>,
  with no observation of \<open>(B, A)\<close>, the rate of \<open>(B, A)\<close> on that date is \<open>1 / 4\<close>, not
  \<open>1 / 2\<close>.
\<close>

theorem C5_same_day_counterexample:
  "observation_count
     [price_entry (Date 2021 1 1) ''A'' (2::rat) ''B'', price_entry (Date 2021 1 1) ''A'' 4 ''B'']
     (''B'', ''A'') = 0 \<and>
   FavaPriceMap_init exact_decimal (\<lambda>cs. cs)
     [price_entry (Date 2021 1 1) ''A'' (2::rat) ''B'', price_entry (Date 2021 1 1) ''A'' 4 ''B''] =
   Inr \<lparr>fpm_currencies = [''A'', ''B''], fpm_forward_pairs = [(''A'', ''B'')],
      fpm_map =
        [((''A'', ''B''), [(Date 2021 1 1, 4::rat)]),
         ((''B'', ''A''), [(Date 2021 1 1, 1 / 4)])]\<rparr> \<and>
   get_price_point
     \<lparr>fpm_currencies = [''A'', ''B''], fpm_forward_pairs = [(''A'', ''B'')],
      fpm_map =
        [((''A'', ''B''), [(Date 2021 1 1, 4::rat)]),
         ((''B'', ''A''), [(Date 2021 1 1, 1 / 4)])]\<rparr>
     (''B'', ''A'') (Some (Date 2021 1 1)) = Inr (Some (Date 2021 1 1), Some (1 / 4)) \<and>
   one_over exact_decimal 2 = Inr (1 / 2) \<and>
   (1 / 4 :: rat) \<noteq> 1 / 2"
  by (simp add: FavaPriceMap_init_def exact_decimal_def price_entry_def Let_def set_add_def forward_pairs_of_def
      counter_get_def observation_count_def pair_of_def bisect_def bisect_loop.simps
      DateKeyWrapper_def list_get_def point_def)

text \<open>
  C5, as the code has it: for an index constructed from a date-ascending stream, after an
  observation of \<open>(A, B)\<close> (\<open>A \<noteq> B\<close>) with rate \<open>r \<noteq> 0\<close> on date \<open>d\<close>,
  \<^verbatim>\<open>get_price_point(B, A, d)\<close> is the quotient \<^verbatim>\<open>ONE / r\<close> at \<open>d\<close>, unless an entry ingested
  later on the same date overrides it: a direct observation of \<open>(B, A)\<close>, or another
  observation of \<open>(A, B)\<close> with a non-zero rate.
\<close>

theorem C5_inverse_unless_overridden:
  assumes "FavaPriceMap_init dec set_order (before @ price_entry d a r b # after) = Inr self"
    and "date_ascending (before @ price_entry d a r b # after)"
    and "a \<noteq> b" and "ne_zero dec r = Inr True"
    and "\<forall>p \<in> set after. price_date p = d \<longrightarrow>
           pair_of p \<noteq> (b, a) \<and>
           (pair_of p = (a, b) \<longrightarrow> ne_zero dec (amount_number (price_amount p)) = Inr False)"
  shows "\<exists>x. one_over dec r = Inr x \<and>
           get_price_point self (b, a) (Some d) = Inr (Some d, Some x)"
proof -
  let ?obs = "before @ price_entry d a r b # after"
  let ?k = "(b, a)"
  note built = FavaPriceMap_init_built[OF assms(1)]
  have "price_entry d a r b \<in> set ?obs" by simp
  then have "\<exists>nonzero. ne_zero dec r = Inr nonzero \<and> (nonzero \<longrightarrow> (\<exists>x. one_over dec r = Inr x))"
    using built(3) by (force simp: price_entry_def)
  then obtain x where x: "one_over dec r = Inr x" using assms(4) by auto
  have ep: "entry_points dec (price_entry d a r b) ?k = [(d, x)]"
    using assms(3,4) x inverse_points_nonzero[of dec "price_entry d a r b" x]
    by (simp add: entry_points_def price_entry_def pair_of_def)
  have en: "entries dec ?obs ?k = entries dec before ?k @ (d, x) # entries dec after ?k"
    by (simp add: entries_append ep)
  have so: "sorted (map fst (entries dec ?obs ?k))" by (rule entries_sorted[OF assms(2)])
  have later: "\<forall>y \<in> set (entries dec after ?k). d < fst y"
  proof
    fix y assume y: "y \<in> set (entries dec after ?k)"
    then obtain p where p: "p \<in> set after" "y \<in> set (entry_points dec p ?k)"
      using entries_member by blast
    have fy: "fst y = price_date p" using p(2) entry_points_dates[of dec p ?k] by auto
    have "entry_points dec p ?k = []" if on_d: "price_date p = d"
    proof -
      have h: "pair_of p \<noteq> (b, a)"
        "pair_of p = (a, b) \<longrightarrow> ne_zero dec (amount_number (price_amount p)) = Inr False"
        using assms(5) p(1) on_d by simp_all
      have "inverse_points dec p = []"
        if "(amount_currency (price_amount p), price_currency p) = (b, a)"
      proof -
        have "pair_of p = (a, b)" using that by (simp add: pair_of_def)
        then show ?thesis using h(2) inverse_points_zero[of dec p] by blast
      qed
      then show ?thesis using h(1) by (simp add: entry_points_def)
    qed
    then have "fst y \<noteq> d" using p(2) fy by auto
    moreover have "d \<le> fst y" using so y unfolding en by (auto simp: sorted_append)
    ultimately show "d < fst y" by simp
  qed
  have ne: "entries dec ?obs ?k \<noteq> []" unfolding en by simp
  obtain e es where e: "entries dec ?obs ?k = e # es"
    using ne by (cases "entries dec ?obs ?k") auto
  have m: "map_of (fpm_map self) ?k = Some (keep_last_loop e es)"
    using built(2)[rule_format, of ?k] e by simp
  have ss: "sorted (map fst (keep_last_loop e es))"
    by (rule keep_last_loop_sorted) (use so e in simp)
  have "get_price_point self ?k (Some d) = Inr (latest_upto (keep_last_loop e es) d)"
    using get_price_point_direct_sorted[OF _ m ss] assms(3) by simp
  also have "latest_upto (keep_last_loop e es) d = latest_upto (entries dec ?obs ?k) d"
    using keep_last_loop_latest[of e es d] so e by simp
  also have "\<dots> = (Some d, Some x)"
    unfolding en by (rule latest_upto_last_on_date[OF later])
  finally show ?thesis using x by blast
qed

theorem C5_inverse_unless_overridden_witness:
  "FavaPriceMap_init exact_decimal (\<lambda>cs. cs)
      ([price_entry (Date 2021 1 1) ''A'' (2::rat) ''B''] @
       price_entry (Date 2021 1 1) ''A'' 4 ''B'' # [price_entry (Date 2021 1 2) ''B'' 5 ''A'']) =
   Inr \<lparr>fpm_currencies = [''A'', ''B''], fpm_forward_pairs = [(''A'', ''B'')],
        fpm_map =
          [((''A'', ''B''), [(Date 2021 1 1, 4), (Date 2021 1 2, 1 / 5)]),
           ((''B'', ''A''), [(Date 2021 1 1, 1 / 4), (Date 2021 1 2, 5)])]\<rparr> \<and>
   get_price_point
     \<lparr>fpm_currencies = [''A'', ''B''], fpm_forward_pairs = [(''A'', ''B'')],
      fpm_map =
        [((''A'', ''B''), [(Date 2021 1 1, 4::rat), (Date 2021 1 2, 1 / 5)]),
         ((''B'', ''A''), [(Date 2021 1 1, 1 / 4), (Date 2021 1 2, 5)])]\<rparr>
     (''B'', ''A'') (Some (Date 2021 1 1)) = Inr (Some (Date 2021 1 1), Some (1 / 4))"
proof -
  let ?S = "\<lparr>fpm_currencies = [''A'', ''B''], fpm_forward_pairs = [(''A'', ''B'')],
      fpm_map =
        [((''A'', ''B''), [(Date 2021 1 1, 4::rat), (Date 2021 1 2, 1 / 5)]),
         ((''B'', ''A''), [(Date 2021 1 1, 1 / 4), (Date 2021 1 2, 5)])]\<rparr>"
  have i: "FavaPriceMap_init exact_decimal (\<lambda>cs. cs)
      ([price_entry (Date 2021 1 1) ''A'' (2::rat) ''B''] @
       price_entry (Date 2021 1 1) ''A'' 4 ''B'' # [price_entry (Date 2021 1 2) ''B'' 5 ''A''])
      = Inr ?S"
    by (simp add: FavaPriceMap_init_def exact_decimal_def price_entry_def Let_def set_add_def forward_pairs_of_def
      counter_get_def)
  have a: "date_ascending ([price_entry (Date 2021 1 1) ''A'' (2::rat) ''B''] @
       price_entry (Date 2021 1 1) ''A'' 4 ''B'' # [price_entry (Date 2021 1 2) ''B'' 5 ''A''])"
    by (simp add: date_ascending_def price_entry_def)
  have n: "''A'' \<noteq> ''B''" "ne_zero exact_decimal (4::rat) = Inr True"
    by (simp_all add: exact_decimal_def)
  have l: "\<forall>p \<in> set [price_entry (Date 2021 1 2) ''B'' (5::rat) ''A''].
      price_date p = Date 2021 1 1 \<longrightarrow>
        pair_of p \<noteq> (''B'', ''A'') \<and>
        (pair_of p = (''A'', ''B'') \<longrightarrow>
           ne_zero exact_decimal (amount_number (price_amount p)) = Inr False)"
    by (simp add: price_entry_def)
  from C5_inverse_unless_overridden[OF i a n l]
  obtain x where x: "one_over exact_decimal (4::rat) = Inr x"
    "get_price_point ?S (''B'', ''A'') (Some (Date 2021 1 1)) = Inr (Some (Date 2021 1 1), Some x)"
    by blast
  have "x = 1 / 4" using x(1) by (simp add: exact_decimal_def)
  then show ?thesis using i x(2) by simp
qed

text \<open>
  C6. The claim: after construction from a date-ascending stream, two or more observations
  of a pair on the same date leave exactly one stored point for that date, equal to the
  last-ingested one, and the stored series has strictly increasing dates. The series of a
  pair also receives the inverses of the reversed pair's observations, and the last point
  ingested for the date wins whichever kind it is: on \<^verbatim>\<open>2021-01-01 price A 2 B\<close>,
  \<^verbatim>\<open>2021-01-01 price A 4 B\<close>, \<^verbatim>\<open>2021-01-01 price B 5 A\<close> the stored point of \<open>(A, B)\<close> is
  \<open>1 / 5\<close>, not the rate \<open>4\<close> of the last observation of \<open>(A, B)\<close>.
\<close>

theorem C6_reverse_observation_counterexample:
  "observations_on (Date 2021 1 1) (''A'', ''B'')
     [price_entry (Date 2021 1 1) ''A'' (2::rat) ''B'', price_entry (Date 2021 1 1) ''A'' 4 ''B'',
      price_entry (Date 2021 1 1) ''B'' 5 ''A''] =
     [price_entry (Date 2021 1 1) ''A'' 2 ''B'', price_entry (Date 2021 1 1) ''A'' 4 ''B''] \<and>
   FavaPriceMap_init exact_decimal (\<lambda>cs. cs)
     [price_entry (Date 2021 1 1) ''A'' (2::rat) ''B'', price_entry (Date 2021 1 1) ''A'' 4 ''B'',
      price_entry (Date 2021 1 1) ''B'' 5 ''A''] =
   Inr \<lparr>fpm_currencies = [''A'', ''B''], fpm_forward_pairs = [(''A'', ''B'')],
      fpm_map =
        [((''A'', ''B''), [(Date 2021 1 1, 1 / 5 :: rat)]),
         ((''B'', ''A''), [(Date 2021 1 1, 5)])]\<rparr> \<and>
   get_all_prices
     \<lparr>fpm_currencies = [''A'', ''B''], fpm_forward_pairs = [(''A'', ''B'')],
      fpm_map =
        [((''A'', ''B''), [(Date 2021 1 1, 1 / 5 :: rat)]),
         ((''B'', ''A''), [(Date 2021 1 1, 5)])]\<rparr>
     (''A'', ''B'') = Some [(Date 2021 1 1, 1 / 5)] \<and>
   (1 / 5 :: rat) \<noteq> 4"
  by (simp add: FavaPriceMap_init_def exact_decimal_def price_entry_def Let_def set_add_def forward_pairs_of_def
      counter_get_def observations_on_def pair_of_def get_all_prices_def)

text \<open>
  C6, as the code has it: in an index constructed from a date-ascending stream the stored
  series of a pair has strictly increasing dates and, for every date for which a point was
  ingested into the series, exactly one point, the last one ingested for that date. The
  series of \<open>(A, B)\<close> holds the observations of \<open>(A, B)\<close> and the inverses of the non-zero
  observations of \<open>(B, A)\<close>; when \<open>A \<noteq> B\<close> and no non-zero observation of \<open>(B, A)\<close> bears the
  date, the stored point is the last-ingested observation of \<open>(A, B)\<close> for that date.
\<close>

theorem C6_same_day_collapse:
  assumes "FavaPriceMap_init dec set_order price_entries = Inr self"
    and "date_ascending price_entries"
  shows "(\<forall>ps. map_of (fpm_map self) (a, b) = Some ps \<longrightarrow> strictly_increasing ps) \<and>
     (on_date d (entries dec price_entries (a, b)) \<noteq> [] \<longrightarrow>
        (\<exists>ps. map_of (fpm_map self) (a, b) = Some ps \<and>
              on_date d ps = [last (on_date d (entries dec price_entries (a, b)))])) \<and>
     (a \<noteq> b \<and> observations_on d (a, b) price_entries \<noteq> [] \<and>
      (\<forall>p \<in> set price_entries. price_date p = d \<and> pair_of p = (b, a) \<longrightarrow>
          ne_zero dec (amount_number (price_amount p)) = Inr False) \<longrightarrow>
        (\<exists>ps. map_of (fpm_map self) (a, b) = Some ps \<and>
              on_date d ps = [observed_point (last (observations_on d (a, b) price_entries))]))"
proof -
  let ?k = "(a, b)"
  note built = FavaPriceMap_init_built[OF assms(1)]
  have strict: "\<forall>ps. map_of (fpm_map self) ?k = Some ps \<longrightarrow> strictly_increasing ps"
    using built_series_strict[OF built(2) assms(2)] by blast
  have one: "\<exists>ps. map_of (fpm_map self) ?k = Some ps \<and>
              on_date d ps = [last (on_date d (entries dec price_entries ?k))]"
    if ne: "on_date d (entries dec price_entries ?k) \<noteq> []"
  proof -
    have "entries dec price_entries ?k \<noteq> []" using ne by (auto simp: on_date_def)
    then obtain e es where e: "entries dec price_entries ?k = e # es"
      by (cases "entries dec price_entries ?k") auto
    have m: "map_of (fpm_map self) ?k = Some (keep_last_loop e es)"
      using built(2)[rule_format, of ?k] e by simp
    have "sorted (map fst (e # es))" using entries_sorted[OF assms(2), of dec ?k] e by simp
    then have "on_date d (keep_last_loop e es) = [last (on_date d (e # es))]"
      using keep_last_loop_on_date[of e es d] ne e by simp
    then show ?thesis using m e by simp
  qed
  have obs: "\<exists>ps. map_of (fpm_map self) ?k = Some ps \<and>
              on_date d ps = [observed_point (last (observations_on d ?k price_entries))]"
    if h: "a \<noteq> b \<and> observations_on d ?k price_entries \<noteq> [] \<and>
      (\<forall>p \<in> set price_entries. price_date p = d \<and> pair_of p = (b, a) \<longrightarrow>
          ne_zero dec (amount_number (price_amount p)) = Inr False)"
  proof -
    have eq: "on_date d (entries dec price_entries ?k) =
              map observed_point (observations_on d ?k price_entries)"
      by (rule on_date_entries_observed) (use h in auto)
    then have ne: "on_date d (entries dec price_entries ?k) \<noteq> []" using h by simp
    have "last (on_date d (entries dec price_entries ?k)) =
          observed_point (last (observations_on d ?k price_entries))"
      unfolding eq using h by (simp add: last_map)
    then show ?thesis using one[OF ne] by simp
  qed
  show ?thesis using strict one obs by blast
qed

theorem C6_same_day_collapse_witness:
  "date_ascending
     [price_entry (Date 2021 1 1) ''A'' (2::rat) ''B'', price_entry (Date 2021 1 1) ''A'' 4 ''B'',
      price_entry (Date 2021 1 2) ''B'' 5 ''A''] \<and>
   FavaPriceMap_init exact_decimal (\<lambda>cs. cs)
     [price_entry (Date 2021 1 1) ''A'' (2::rat) ''B'', price_entry (Date 2021 1 1) ''A'' 4 ''B'',
      price_entry (Date 2021 1 2) ''B'' 5 ''A''] =
   Inr \<lparr>fpm_currencies = [''A'', ''B''], fpm_forward_pairs = [(''A'', ''B'')],
      fpm_map =
        [((''A'', ''B''), [(Date 2021 1 1, 4::rat), (Date 2021 1 2, 1 / 5)]),
         ((''B'', ''A''), [(Date 2021 1 1, 1 / 4), (Date 2021 1 2, 5)])]\<rparr> \<and>
   (\<exists>ps. map_of
        (fpm_map
           \<lparr>fpm_currencies = [''A'', ''B''], fpm_forward_pairs = [(''A'', ''B'')],
      fpm_map =
        [((''A'', ''B''), [(Date 2021 1 1, 4::rat), (Date 2021 1 2, 1 / 5)]),
         ((''B'', ''A''), [(Date 2021 1 1, 1 / 4), (Date 2021 1 2, 5)])]\<rparr>)
        (''A'', ''B'') = Some ps \<and>
      strictly_increasing ps \<and> on_date (Date 2021 1 1) ps = [(Date 2021 1 1, 4)])"
proof -
  let ?obs = "[price_entry (Date 2021 1 1) ''A'' (2::rat) ''B'', price_entry (Date 2021 1 1) ''A'' 4 ''B'',
      price_entry (Date 2021 1 2) ''B'' 5 ''A'']"
  let ?S = "\<lparr>fpm_currencies = [''A'', ''B''], fpm_forward_pairs = [(''A'', ''B'')],
      fpm_map =
        [((''A'', ''B''), [(Date 2021 1 1, 4::rat), (Date 2021 1 2, 1 / 5)]),
         ((''B'', ''A''), [(Date 2021 1 1, 1 / 4), (Date 2021 1 2, 5)])]\<rparr>"
  have a: "date_ascending ?obs" by (simp add: date_ascending_def price_entry_def)
  have i: "FavaPriceMap_init exact_decimal (\<lambda>cs. cs) ?obs = Inr ?S"
    by (simp add: FavaPriceMap_init_def exact_decimal_def price_entry_def Let_def set_add_def forward_pairs_of_def
      counter_get_def)
  have o: "observations_on (Date 2021 1 1) (''A'', ''B'') ?obs =
      [price_entry (Date 2021 1 1) ''A'' 2 ''B'', price_entry (Date 2021 1 1) ''A'' 4 ''B'']"
    by (simp add: observations_on_def pair_of_def price_entry_def)
  have z: "\<forall>p \<in> set ?obs. price_date p = Date 2021 1 1 \<and> pair_of p = (''B'', ''A'') \<longrightarrow>
      ne_zero exact_decimal (amount_number (price_amount p)) = Inr False"
    by (simp add: pair_of_def price_entry_def)
  note c = C6_same_day_collapse[OF i a, of "''A''" "''B''" "Date 2021 1 1"]
  have s: "\<forall>ps. map_of (fpm_map ?S) (''A'', ''B'') = Some ps \<longrightarrow> strictly_increasing ps"
    using c by blast
  have "''A'' \<noteq> ''B'' \<and> observations_on (Date 2021 1 1) (''A'', ''B'') ?obs \<noteq> []"
    unfolding o by simp
  with c z obtain ps where ps: "map_of (fpm_map ?S) (''A'', ''B'') = Some ps"
    "on_date (Date 2021 1 1) ps =
       [observed_point (last (observations_on (Date 2021 1 1) (''A'', ''B'') ?obs))]"
    by blast
  have "observed_point (last (observations_on (Date 2021 1 1) (''A'', ''B'') ?obs)) =
        (Date 2021 1 1, 4)"
    unfolding o by (simp add: observed_point_def price_entry_def)
  then have "on_date (Date 2021 1 1) ps = [(Date 2021 1 1, 4)]" using ps(2) by simp
  moreover have "strictly_increasing ps" using s ps(1) by blast
  ultimately show ?thesis using a i ps(1) by blast
qed

text \<open>
  C7. \<^verbatim>\<open>commodity_pairs\<close> returns the forward pairs and, for each forward pair whose base
  and quote are both operating currencies, the reversed pair; the list is sorted ascending
  in the lexicographic order of pairs of currency codes; with no operating currency it is
  the sorted list of the forward pairs.
\<close>

theorem C7_commodity_pairs:
  "commodity_pairs self ops =
     sort (fpm_forward_pairs self @
           map prod.swap
             (filter (\<lambda>(base, quote). base \<in> set ops \<and> quote \<in> set ops)
                (fpm_forward_pairs self))) \<and>
   set (commodity_pairs self ops) =
     set (fpm_forward_pairs self) \<union>
     {(quote, base) | base quote.
        (base, quote) \<in> set (fpm_forward_pairs self) \<and> base \<in> set ops \<and> quote \<in> set ops} \<and>
   sorted (commodity_pairs self ops) \<and>
   commodity_pairs self [] = sort (fpm_forward_pairs self)"
  using set_commodity_pairs[of self ops]
  by (simp add: commodity_pairs_def extra_operating_pairs_eq)

theorem C7_commodity_pairs_witness:
  "commodity_pairs
     \<lparr>fpm_currencies = [''USD'', ''EUR'', ''CHF''],
      fpm_forward_pairs = [(''USD'', ''EUR''), (''USD'', ''CHF'')],
      fpm_map = ([] :: (BaseQuote \<times> rat PricePoint list) list)\<rparr>
     [''USD'', ''EUR''] = [(''EUR'', ''USD''), (''USD'', ''CHF''), (''USD'', ''EUR'')] \<and>
   commodity_pairs
     \<lparr>fpm_currencies = [''USD'', ''EUR'', ''CHF''],
      fpm_forward_pairs = [(''USD'', ''EUR''), (''USD'', ''CHF'')],
      fpm_map = ([] :: (BaseQuote \<times> rat PricePoint list) list)\<rparr>
     [] = [(''USD'', ''CHF''), (''USD'', ''EUR'')]"
proof -
  have "sort [(''USD'', ''EUR''), (''USD'', ''CHF''), (''EUR'', ''USD'')] =
          [(''EUR'', ''USD''), (''USD'', ''CHF''), (''USD'', ''EUR'')]"
    by code_simp
  moreover have "sort [(''USD'', ''EUR''), (''USD'', ''CHF'')] =
          [(''USD'', ''CHF''), (''USD'', ''EUR'')]"
    by code_simp
  ultimately show ?thesis
    using C7_commodity_pairs[of
        "\<lparr>fpm_currencies = [''USD'', ''EUR'', ''CHF''],
          fpm_forward_pairs = [(''USD'', ''EUR''), (''USD'', ''CHF'')],
          fpm_map = ([] :: (BaseQuote \<times> rat PricePoint list) list)\<rparr>"]
    by simp
qed

text \<open>
  C8. On a constructed index \<^verbatim>\<open>get_all_prices\<close> returns the stored series of the pair when
  there is one and \<open>None\<close> otherwise. The stored series is non-empty, and chronological
  (strictly increasing dates) when the stream was date-ascending. A pair with no
  observation of its own and no non-zero observation of the reversed pair has no stored
  series, whatever other series exist: a price found through a third currency is never
  stored.
\<close>

theorem C8_get_all_prices:
  assumes "FavaPriceMap_init dec set_order price_entries = Inr self"
  shows "get_all_prices self (a, b) = map_of (fpm_map self) (a, b) \<and>
     (entries dec price_entries (a, b) \<noteq> [] \<longrightarrow>
        (\<exists>ps. get_all_prices self (a, b) = Some ps \<and> ps \<noteq> [] \<and>
              (date_ascending price_entries \<longrightarrow> strictly_increasing ps))) \<and>
     (entries dec price_entries (a, b) = [] \<longrightarrow> get_all_prices self (a, b) = None) \<and>
     ((\<forall>p \<in> set price_entries. pair_of p \<noteq> (a, b) \<and>
          (pair_of p = (b, a) \<longrightarrow>
             ne_zero dec (amount_number (price_amount p)) = Inr False)) \<longrightarrow>
        get_all_prices self (a, b) = None)"
proof -
  let ?k = "(a, b)"
  note built = FavaPriceMap_init_built[OF assms]
  have g: "get_all_prices self ?k = map_of (fpm_map self) ?k" by (simp add: get_all_prices_def)
  have m: "map_of (fpm_map self) ?k =
       (case entries dec price_entries ?k of
          [] \<Rightarrow> None | p # ps \<Rightarrow> Some (keep_last_loop p ps))"
    using built(2) by blast
  have some: "\<exists>ps. get_all_prices self ?k = Some ps \<and> ps \<noteq> [] \<and>
              (date_ascending price_entries \<longrightarrow> strictly_increasing ps)"
    if nonempty: "entries dec price_entries ?k \<noteq> []"
  proof -
    obtain e es where e: "entries dec price_entries ?k = e # es"
      using nonempty by (cases "entries dec price_entries ?k") auto
    have ms: "map_of (fpm_map self) ?k = Some (keep_last_loop e es)" using m e by simp
    have "date_ascending price_entries \<longrightarrow> strictly_increasing (keep_last_loop e es)"
      using built_series_strict[OF built(2) _ ms] by blast
    then show ?thesis using g ms keep_last_loop_nonempty[of e es] by simp
  qed
  have none: "get_all_prices self ?k = None" if "entries dec price_entries ?k = []"
    using g m that by simp
  have none': "get_all_prices self ?k = None"
    if "\<forall>p \<in> set price_entries. pair_of p \<noteq> (a, b) \<and>
          (pair_of p = (b, a) \<longrightarrow> ne_zero dec (amount_number (price_amount p)) = Inr False)"
    using none entries_empty[OF that] by simp
  show ?thesis using g some none none' by blast
qed

theorem C8_get_all_prices_witness:
  "FavaPriceMap_init exact_decimal (\<lambda>cs. cs)
     [price_entry (Date 2021 1 1) ''C'' (4::rat) ''B'', price_entry (Date 2021 2 1) ''A'' 2 ''C''] =
   Inr \<lparr>fpm_currencies = [''C'', ''B'', ''A''],
        fpm_forward_pairs = [(''C'', ''B''), (''A'', ''C'')],
        fpm_map =
          [((''C'', ''B''), [(Date 2021 1 1, 4::rat)]),
           ((''B'', ''C''), [(Date 2021 1 1, 1 / 4)]),
           ((''A'', ''C''), [(Date 2021 2 1, 2)]),
           ((''C'', ''A''), [(Date 2021 2 1, 1 / 2)])]\<rparr> \<and>
   get_all_prices
     \<lparr>fpm_currencies = [''C'', ''B'', ''A''],
        fpm_forward_pairs = [(''C'', ''B''), (''A'', ''C'')],
        fpm_map =
          [((''C'', ''B''), [(Date 2021 1 1, 4::rat)]),
           ((''B'', ''C''), [(Date 2021 1 1, 1 / 4)]),
           ((''A'', ''C''), [(Date 2021 2 1, 2)]),
           ((''C'', ''A''), [(Date 2021 2 1, 1 / 2)])]\<rparr>
     (''A'', ''B'') = None \<and>
   get_all_prices
     \<lparr>fpm_currencies = [''C'', ''B'', ''A''],
        fpm_forward_pairs = [(''C'', ''B''), (''A'', ''C'')],
        fpm_map =
          [((''C'', ''B''), [(Date 2021 1 1, 4::rat)]),
           ((''B'', ''C''), [(Date 2021 1 1, 1 / 4)]),
           ((''A'', ''C''), [(Date 2021 2 1, 2)]),
           ((''C'', ''A''), [(Date 2021 2 1, 1 / 2)])]\<rparr>
     (''A'', ''C'') = Some [(Date 2021 2 1, 2)] \<and>
   get_price_point
     \<lparr>fpm_currencies = [''C'', ''B'', ''A''],
        fpm_forward_pairs = [(''C'', ''B''), (''A'', ''C'')],
        fpm_map =
          [((''C'', ''B''), [(Date 2021 1 1, 4::rat)]),
           ((''B'', ''C''), [(Date 2021 1 1, 1 / 4)]),
           ((''A'', ''C''), [(Date 2021 2 1, 2)]),
           ((''C'', ''A''), [(Date 2021 2 1, 1 / 2)])]\<rparr>
     (''A'', ''B'') (Some (Date 2021 3 1)) = Inr (Some (Date 2021 1 1), Some 4)"
proof -
  let ?obs = "[price_entry (Date 2021 1 1) ''C'' (4::rat) ''B'', price_entry (Date 2021 2 1) ''A'' 2 ''C'']"
  let ?S = "\<lparr>fpm_currencies = [''C'', ''B'', ''A''],
        fpm_forward_pairs = [(''C'', ''B''), (''A'', ''C'')],
        fpm_map =
          [((''C'', ''B''), [(Date 2021 1 1, 4::rat)]),
           ((''B'', ''C''), [(Date 2021 1 1, 1 / 4)]),
           ((''A'', ''C''), [(Date 2021 2 1, 2)]),
           ((''C'', ''A''), [(Date 2021 2 1, 1 / 2)])]\<rparr>"
  have i: "FavaPriceMap_init exact_decimal (\<lambda>cs. cs) ?obs = Inr ?S"
    by (simp add: FavaPriceMap_init_def exact_decimal_def price_entry_def Let_def set_add_def forward_pairs_of_def
      counter_get_def)
  have h: "\<forall>p \<in> set ?obs. pair_of p \<noteq> (''A'', ''B'') \<and>
          (pair_of p = (''B'', ''A'') \<longrightarrow>
             ne_zero exact_decimal (amount_number (price_amount p)) = Inr False)"
    by (simp add: pair_of_def price_entry_def)
  have n: "get_all_prices ?S (''A'', ''B'') = None"
    using C8_get_all_prices[OF i, of "''A''" "''B''"] h by blast
  have "get_all_prices ?S (''A'', ''C'') = Some [(Date 2021 2 1, 2)]"
    "get_price_point ?S (''A'', ''B'') (Some (Date 2021 3 1)) = Inr (Some (Date 2021 1 1), Some 4)"
    by (simp_all add: get_all_prices_def bisect_def bisect_loop.simps DateKeyWrapper_def
        list_get_def point_def)
  then show ?thesis using i n by blast
qed

text \<open>
  C9. For two distinct currencies and any date or none, \<^verbatim>\<open>get_price_point\<close> on a constructed
  index raises nothing: it returns either a stored point or the no-data pair
  \<open>(None, None)\<close>. In particular it returns \<open>(None, None)\<close> when the pair has no series and
  no third currency has a series from the base and a series to the quote.
\<close>

theorem C9_missing_data_is_returned:
  assumes "base \<noteq> quote"
    and "FavaPriceMap_init dec set_order price_entries = Inr self"
  shows "(\<exists>p. get_price_point self (base, quote) date = Inr p \<and>
          (p = (None, None) \<or> (\<exists>d x. p = (Some d, Some x)))) \<and>
     (map_of (fpm_map self) (base, quote) = None \<and>
      (\<forall>c \<in> set (fpm_currencies self). c = base \<or> c = quote \<or>
          map_of (fpm_map self) (base, c) = None \<or> map_of (fpm_map self) (c, quote) = None) \<longrightarrow>
        get_price_point self (base, quote) date = Inr (None, None))"
proof -
  note built = FavaPriceMap_init_built[OF assms(2)]
  have ne: "\<forall>k ps. map_of (fpm_map self) k = Some ps \<longrightarrow> ps \<noteq> []"
    by (rule built_series_nonempty[OF built(2)])
  have t: "\<exists>p. get_price_point self (base, quote) date = Inr p \<and>
          (p = (None, None) \<or> (\<exists>d x. p = (Some d, Some x)))"
    by (rule get_price_point_total[OF ne assms(1)])
  have n: "get_price_point self (base, quote) date = Inr (None, None)"
    if "map_of (fpm_map self) (base, quote) = None \<and>
      (\<forall>c \<in> set (fpm_currencies self). c = base \<or> c = quote \<or>
          map_of (fpm_map self) (base, c) = None \<or> map_of (fpm_map self) (c, quote) = None)"
    using that assms(1) via_currency_no_hop[of "fpm_currencies self" base quote self date]
    by simp
  show ?thesis using t n by blast
qed

theorem C9_missing_data_is_returned_witness:
  "FavaPriceMap_init exact_decimal (\<lambda>cs. cs)
     [price_entry (Date 2021 1 1) ''USD'' (2::rat) ''EUR'',
      price_entry (Date 2021 2 1) ''USD'' 4 ''EUR''] =
   Inr \<lparr>fpm_currencies = [''USD'', ''EUR''], fpm_forward_pairs = [(''USD'', ''EUR'')],
      fpm_map =
        [((''USD'', ''EUR''), [(Date 2021 1 1, 2::rat), (Date 2021 2 1, 4)]),
         ((''EUR'', ''USD''), [(Date 2021 1 1, 1 / 2), (Date 2021 2 1, 1 / 4)])]\<rparr> \<and>
   get_price_point
     \<lparr>fpm_currencies = [''USD'', ''EUR''], fpm_forward_pairs = [(''USD'', ''EUR'')],
      fpm_map =
        [((''USD'', ''EUR''), [(Date 2021 1 1, 2::rat), (Date 2021 2 1, 4)]),
         ((''EUR'', ''USD''), [(Date 2021 1 1, 1 / 2), (Date 2021 2 1, 1 / 4)])]\<rparr>
     (''USD'', ''CHF'') None = Inr (None, None)"
proof -
  let ?obs = "[price_entry (Date 2021 1 1) ''USD'' (2::rat) ''EUR'',
      price_entry (Date 2021 2 1) ''USD'' 4 ''EUR'']"
  let ?S = "\<lparr>fpm_currencies = [''USD'', ''EUR''], fpm_forward_pairs = [(''USD'', ''EUR'')],
      fpm_map =
        [((''USD'', ''EUR''), [(Date 2021 1 1, 2::rat), (Date 2021 2 1, 4)]),
         ((''EUR'', ''USD''), [(Date 2021 1 1, 1 / 2), (Date 2021 2 1, 1 / 4)])]\<rparr>"
  have i: "FavaPriceMap_init exact_decimal (\<lambda>cs. cs) ?obs = Inr ?S"
    by (simp add: FavaPriceMap_init_def exact_decimal_def price_entry_def Let_def set_add_def forward_pairs_of_def
      counter_get_def)
  have d: "''USD'' \<noteq> ''CHF''" by simp
  have "map_of (fpm_map ?S) (''USD'', ''CHF'') = None \<and>
      (\<forall>c \<in> set (fpm_currencies ?S). c = ''USD'' \<or> c = ''CHF'' \<or>
          map_of (fpm_map ?S) (''USD'', c) = None \<or> map_of (fpm_map ?S) (c, ''CHF'') = None)"
    by simp
  then have "get_price_point ?S (''USD'', ''CHF'') None = Inr (None, None)"
    using C9_missing_data_is_returned[OF d i, of None] by blast
  then show ?thesis using i by blast
qed

text \<open>
  C10. In an index constructed from a stream of price entries (date-ascending, as the
  constructor requires of its argument) every stored series is non-empty with strictly
  increasing dates. Consequently every call of \<^verbatim>\<open>get_price_point\<close> returns without an
  \<^verbatim>\<open>IndexError\<close>: the last-element accesses and the access at \<open>index - 1\<close> are in bounds.
  And every call returns within a depth of two nested calls: the fallback's recursive call
  is on a pair of distinct currencies with a stored series, takes the direct branch and
  recurses no further.
\<close>

theorem C10_series_nonempty_accesses_in_bounds:
  assumes "FavaPriceMap_init dec set_order price_entries = Inr self"
    and "date_ascending price_entries"
  shows "(\<forall>k ps. map_of (fpm_map self) k = Some ps \<longrightarrow> ps \<noteq> [] \<and> strictly_increasing ps) \<and>
     (\<forall>base quote date. \<exists>p.
        get_price_point self (base, quote) date = Inr p \<and>
        get_price_point_depth 2 self (base, quote) date = Some (Inr p))"
proof -
  note built = FavaPriceMap_init_built[OF assms(1)]
  have ne: "\<forall>k ps. map_of (fpm_map self) k = Some ps \<longrightarrow> ps \<noteq> []"
    by (rule built_series_nonempty[OF built(2)])
  have st: "\<forall>k ps. map_of (fpm_map self) k = Some ps \<longrightarrow> ps \<noteq> [] \<and> strictly_increasing ps"
    using ne built_series_strict[OF built(2) assms(2)] by blast
  have r: "\<exists>p. get_price_point self (base, quote) date = Inr p \<and>
        get_price_point_depth 2 self (base, quote) date = Some (Inr p)" for base quote date
  proof -
    have d: "get_price_point_depth 2 self (base, quote) date =
             Some (get_price_point self (base, quote) date)"
      using get_price_point_depth_two[of 0 self base quote date] by (simp add: numeral_2_eq_2)
    show ?thesis
    proof (cases "base = quote")
      case True
      then show ?thesis using d by simp
    next
      case False
      then obtain p where "get_price_point self (base, quote) date = Inr p"
        using get_price_point_total[OF ne False, of date] by blast
      then show ?thesis using d by simp
    qed
  qed
  show ?thesis using st r by blast
qed

theorem C10_series_nonempty_accesses_in_bounds_witness:
  "date_ascending
     [price_entry (Date 2021 1 1) ''C'' (4::rat) ''B'', price_entry (Date 2021 2 1) ''A'' 2 ''C''] \<and>
   FavaPriceMap_init exact_decimal (\<lambda>cs. cs)
     [price_entry (Date 2021 1 1) ''C'' (4::rat) ''B'', price_entry (Date 2021 2 1) ''A'' 2 ''C''] =
   Inr \<lparr>fpm_currencies = [''C'', ''B'', ''A''],
        fpm_forward_pairs = [(''C'', ''B''), (''A'', ''C'')],
        fpm_map =
          [((''C'', ''B''), [(Date 2021 1 1, 4::rat)]),
           ((''B'', ''C''), [(Date 2021 1 1, 1 / 4)]),
           ((''A'', ''C''), [(Date 2021 2 1, 2)]),
           ((''C'', ''A''), [(Date 2021 2 1, 1 / 2)])]\<rparr> \<and>
   strictly_increasing [(Date 2021 2 1, 1 / 2 :: rat)] \<and>
   get_price_point_depth 2
     \<lparr>fpm_currencies = [''C'', ''B'', ''A''],
        fpm_forward_pairs = [(''C'', ''B''), (''A'', ''C'')],
        fpm_map =
          [((''C'', ''B''), [(Date 2021 1 1, 4::rat)]),
           ((''B'', ''C''), [(Date 2021 1 1, 1 / 4)]),
           ((''A'', ''C''), [(Date 2021 2 1, 2)]),
           ((''C'', ''A''), [(Date 2021 2 1, 1 / 2)])]\<rparr>
     (''A'', ''B'') (Some (Date 2021 3 1)) = Some (Inr (Some (Date 2021 1 1), Some 4)) \<and>
   get_price_point_depth 1
     \<lparr>fpm_currencies = [''C'', ''B'', ''A''],
        fpm_forward_pairs = [(''C'', ''B''), (''A'', ''C'')],
        fpm_map =
          [((''C'', ''B''), [(Date 2021 1 1, 4::rat)]),
           ((''B'', ''C''), [(Date 2021 1 1, 1 / 4)]),
           ((''A'', ''C''), [(Date 2021 2 1, 2)]),
           ((''C'', ''A''), [(Date 2021 2 1, 1 / 2)])]\<rparr>
     (''A'', ''B'') (Some (Date 2021 3 1)) = None"
proof -
  let ?obs = "[price_entry (Date 2021 1 1) ''C'' (4::rat) ''B'', price_entry (Date 2021 2 1) ''A'' 2 ''C'']"
  let ?S = "\<lparr>fpm_currencies = [''C'', ''B'', ''A''],
        fpm_forward_pairs = [(''C'', ''B''), (''A'', ''C'')],
        fpm_map =
          [((''C'', ''B''), [(Date 2021 1 1, 4::rat)]),
           ((''B'', ''C''), [(Date 2021 1 1, 1 / 4)]),
           ((''A'', ''C''), [(Date 2021 2 1, 2)]),
           ((''C'', ''A''), [(Date 2021 2 1, 1 / 2)])]\<rparr>"
  have a: "date_ascending ?obs" by (simp add: date_ascending_def price_entry_def)
  have i: "FavaPriceMap_init exact_decimal (\<lambda>cs. cs) ?obs = Inr ?S"
    by (simp add: FavaPriceMap_init_def exact_decimal_def price_entry_def Let_def set_add_def forward_pairs_of_def
      counter_get_def)
  note c = C10_series_nonempty_accesses_in_bounds[OF i a]
  have m: "map_of (fpm_map ?S) (''C'', ''A'') = Some [(Date 2021 2 1, 1 / 2)]" by simp
  have st: "strictly_increasing [(Date 2021 2 1, 1 / 2 :: rat)]" using c m by blast
  obtain p where p: "get_price_point ?S (''A'', ''B'') (Some (Date 2021 3 1)) = Inr p"
    "get_price_point_depth 2 ?S (''A'', ''B'') (Some (Date 2021 3 1)) = Some (Inr p)"
    using c by blast
  have "get_price_point ?S (''A'', ''B'') (Some (Date 2021 3 1)) =
          Inr (Some (Date 2021 1 1), Some 4)"
    by (simp add: bisect_def bisect_loop.simps DateKeyWrapper_def list_get_def point_def)
  then have d2: "get_price_point_depth 2 ?S (''A'', ''B'') (Some (Date 2021 3 1)) =
        Some (Inr (Some (Date 2021 1 1), Some 4))"
    using p by simp
  have d1: "get_price_point_depth 1 ?S (''A'', ''B'') (Some (Date 2021 3 1)) = None"
    by (simp add: bisect_def bisect_loop.simps DateKeyWrapper_def list_get_def point_def)
  show ?thesis using a i st d2 d1 by blast
qed

end
